theory Spec2Isabelle
  imports Complex_Main "HOL-Library.Log_Nat"
begin

section \<open>Image processing with matrices: a shallow embedding of mybranch.cpp\<close>

text \<open>
  The program stores an image as \<open>vector<vector<vector<int>>>\<close>, indexed
  \<open>[row][column][channel]\<close>, next to four \<open>int\<close> fields. The seven transforms read
  an input image through \<open>operator()\<close> and write a freshly constructed output image.
  Everything the C++ does beyond returning a value is a value here:
  \<^item> \<open>operator()\<close> indexes the vectors with the unchecked \<open>operator[]\<close>; an index
    outside the vector is undefined behaviour, which the model reports as \<open>OutOfBounds\<close>;
  \<^item> a vector asked for a negative number of elements (the \<open>int\<close> converts to a huge
    \<open>size_t\<close>) throws \<open>std::length_error\<close>, here \<open>LengthError\<close>; exhaustion of memory is
    not modelled;
  \<^item> a floating-point value that does not fit an \<open>int\<close> has no defined conversion, here
    \<open>UndefinedConversion\<close>.
\<close>

subsection \<open>Errors\<close>

datatype error = OutOfBounds | LengthError | UndefinedConversion

definition bindE :: "error + 'a \<Rightarrow> ('a \<Rightarrow> error + 'b) \<Rightarrow> error + 'b" where
  "bindE m f = (case m of Inl e \<Rightarrow> Inl e | Inr v \<Rightarrow> f v)"

subsection \<open>The counted loop\<close>

text \<open>
  \<open>for (int i = i0; i < n; i++) body\<close>, threading the state the body updates and
  stopping at the first failure.
\<close>

function for_loop :: "int \<Rightarrow> int \<Rightarrow> (int \<Rightarrow> 's \<Rightarrow> error + 's) \<Rightarrow> 's \<Rightarrow> error + 's" where
  "for_loop i n body s =
     (if i < n then (case body i s of Inl e \<Rightarrow> Inl e | Inr s' \<Rightarrow> for_loop (i + 1) n body s')
      else Inr s)"
  by pat_completeness auto
termination
  by (relation "measure (\<lambda>(i, n, body, s). nat (n - i))") auto

declare for_loop.simps [simp del]

subsection \<open>Machine arithmetic\<close>

text \<open>
  \<open>int\<close> is 32 bits wide. Samples are modelled as mathematical integers. The one
  addition of the program that can leave the 32-bit range is \<open>input(y, x, c) + value\<close>
  in \<open>adjustBrightness\<close>; C++ leaves signed overflow undefined, and the model takes the
  two's complement result of the target's add instruction.
\<close>

definition INT_MIN :: int where "INT_MIN = - (2 ^ 31)"
definition INT_MAX :: int where "INT_MAX = 2 ^ 31 - 1"

definition wrap_int :: "int \<Rightarrow> int" where
  "wrap_int x = (x + 2 ^ 31) mod 2 ^ 32 - 2 ^ 31"

text \<open>
  IEEE 754 binary floating point, round to nearest, ties to even, every operation
  rounded to its own format (\<open>FLT_EVAL_METHOD = 0\<close>, no contraction). A finite value
  is the rational it denotes; the two zeros are one value, since the program never
  divides nor inspects a sign.
\<close>

datatype ieee = Fin rat | PInf | MInf | NaN

record format =
  prec :: nat
  emin :: int
  emax :: int

definition binary32 :: format where
  "binary32 = \<lparr>prec = 24, emin = -126, emax = 127\<rparr>"

definition binary64 :: format where
  "binary64 = \<lparr>prec = 53, emin = -1022, emax = 1023\<rparr>"

text \<open>The exponent \<open>e\<close> of a positive rational: \<open>2 ^ e \<le> q < 2 ^ (e + 1)\<close>.\<close>

definition ilog2 :: "rat \<Rightarrow> int" where
  "ilog2 q = (let (n, d) = quotient_of q; k = bitlen n - bitlen d
              in if 2 powi k \<le> q then k else k - 1)"

text \<open>Rounding a rational to the nearest integer, ties to the even one.\<close>

definition rne :: "rat \<Rightarrow> int" where
  "rne x = (let f = \<lfloor>x\<rfloor>; r = x - of_int f
            in if r < 1 / 2 then f else if 1 / 2 < r then f + 1
               else if even f then f else f + 1)"

definition largest :: "format \<Rightarrow> rat" where
  "largest fmt = (2 ^ prec fmt - 1) * 2 powi (emax fmt - int (prec fmt) + 1)"

definition round_to :: "format \<Rightarrow> rat \<Rightarrow> ieee" where
  "round_to fmt q =
     (if q = 0 then Fin 0
      else let e = max (ilog2 \<bar>q\<bar>) (emin fmt);
               ulp = 2 powi (e - (int (prec fmt) - 1));
               r = of_int (rne (q / ulp)) * ulp
           in if largest fmt < \<bar>r\<bar> then (if 0 < q then PInf else MInf) else Fin r)"

fun fp_add :: "format \<Rightarrow> ieee \<Rightarrow> ieee \<Rightarrow> ieee" where
  "fp_add fmt NaN b = NaN"
| "fp_add fmt a NaN = NaN"
| "fp_add fmt PInf MInf = NaN"
| "fp_add fmt MInf PInf = NaN"
| "fp_add fmt PInf b = PInf"
| "fp_add fmt a PInf = PInf"
| "fp_add fmt MInf b = MInf"
| "fp_add fmt a MInf = MInf"
| "fp_add fmt (Fin a) (Fin b) = round_to fmt (a + b)"

fun fp_neg :: "ieee \<Rightarrow> ieee" where
  "fp_neg (Fin a) = Fin (- a)"
| "fp_neg PInf = MInf"
| "fp_neg MInf = PInf"
| "fp_neg NaN = NaN"

definition fp_sub :: "format \<Rightarrow> ieee \<Rightarrow> ieee \<Rightarrow> ieee" where
  "fp_sub fmt a b = fp_add fmt a (fp_neg b)"

fun fp_mul :: "format \<Rightarrow> ieee \<Rightarrow> ieee \<Rightarrow> ieee" where
  "fp_mul fmt NaN b = NaN"
| "fp_mul fmt a NaN = NaN"
| "fp_mul fmt (Fin a) (Fin b) = round_to fmt (a * b)"
| "fp_mul fmt (Fin a) PInf = (if a = 0 then NaN else if 0 < a then PInf else MInf)"
| "fp_mul fmt (Fin a) MInf = (if a = 0 then NaN else if 0 < a then MInf else PInf)"
| "fp_mul fmt PInf (Fin b) = (if b = 0 then NaN else if 0 < b then PInf else MInf)"
| "fp_mul fmt MInf (Fin b) = (if b = 0 then NaN else if 0 < b then MInf else PInf)"
| "fp_mul fmt PInf PInf = PInf"
| "fp_mul fmt MInf MInf = PInf"
| "fp_mul fmt PInf MInf = MInf"
| "fp_mul fmt MInf PInf = MInf"

text \<open>The comparison \<open>a < b\<close>: false as soon as one side is a NaN.\<close>

fun fp_less :: "ieee \<Rightarrow> ieee \<Rightarrow> bool" where
  "fp_less NaN b = False"
| "fp_less a NaN = False"
| "fp_less (Fin a) (Fin b) = (a < b)"
| "fp_less (Fin a) PInf = True"
| "fp_less (Fin a) MInf = False"
| "fp_less PInf b = False"
| "fp_less MInf (Fin b) = True"
| "fp_less MInf PInf = True"
| "fp_less MInf MInf = False"

text \<open>\<open>std::min(a, b)\<close> is \<open>(b < a) ? b : a\<close> and \<open>std::max(a, b)\<close> is \<open>(a < b) ? b : a\<close>.\<close>

definition std_min :: "ieee \<Rightarrow> ieee \<Rightarrow> ieee" where
  "std_min a b = (if fp_less b a then b else a)"

definition std_max :: "ieee \<Rightarrow> ieee \<Rightarrow> ieee" where
  "std_max a b = (if fp_less a b then b else a)"

text \<open>Conversions between \<open>int\<close> and a floating-point format.\<close>

definition fp_of_int :: "format \<Rightarrow> int \<Rightarrow> ieee" where
  "fp_of_int fmt n = round_to fmt (of_int n)"

definition trunc_to_zero :: "rat \<Rightarrow> int" where
  "trunc_to_zero q = (if 0 \<le> q then \<lfloor>q\<rfloor> else \<lceil>q\<rceil>)"

fun fp_to_int :: "ieee \<Rightarrow> error + int" where
  "fp_to_int (Fin q) =
     (if INT_MIN \<le> trunc_to_zero q \<and> trunc_to_zero q \<le> INT_MAX then Inr (trunc_to_zero q)
      else Inl UndefinedConversion)"
| "fp_to_int x = Inl UndefinedConversion"

subsection \<open>The class Image\<close>

record Image =
  width :: int
  height :: int
  maxVal :: int
  channels :: int
  data :: "int list list list"

text \<open>The default constructor.\<close>

definition Image_default :: Image where
  "Image_default = \<lparr>width = 0, height = 0, maxVal = 255, channels = 3, data = []\<rparr>"

text \<open>
  \<open>Image(int w, int h, int ch = 3)\<close>. The fill value
  \<open>vector<vector<int>>(width, vector<int>(channels, 0))\<close> is built before
  \<open>data.resize\<close> runs, so each of the three counts must be non-negative.
\<close>

definition Image_ctor :: "int \<Rightarrow> int \<Rightarrow> int \<Rightarrow> error + Image" where
  "Image_ctor w h ch =
     (if ch < 0 \<or> w < 0 \<or> h < 0 then Inl LengthError
      else Inr \<lparr>width = w, height = h, maxVal = 255, channels = ch,
                data = replicate (nat h) (replicate (nat w) (replicate (nat ch) 0))\<rparr>)"

text \<open>\<open>operator()(y, x, channel) const\<close>: the read \<open>data[y][x][channel]\<close>.\<close>

definition getPixel :: "Image \<Rightarrow> int \<Rightarrow> int \<Rightarrow> int \<Rightarrow> error + int" where
  "getPixel img y x c =
     (if 0 \<le> y \<and> nat y < length (data img)
         \<and> 0 \<le> x \<and> nat x < length (data img ! nat y)
         \<and> 0 \<le> c \<and> nat c < length (data img ! nat y ! nat x)
      then Inr (data img ! nat y ! nat x ! nat c)
      else Inl OutOfBounds)"

text \<open>\<open>operator()(y, x, channel) = v\<close>: the write through the returned reference.\<close>

definition setPixel :: "Image \<Rightarrow> int \<Rightarrow> int \<Rightarrow> int \<Rightarrow> int \<Rightarrow> error + Image" where
  "setPixel img y x c v =
     (if 0 \<le> y \<and> nat y < length (data img)
         \<and> 0 \<le> x \<and> nat x < length (data img ! nat y)
         \<and> 0 \<le> c \<and> nat c < length (data img ! nat y ! nat x)
      then Inr (img\<lparr>data := (data img)[nat y := (data img ! nat y)
                  [nat x := (data img ! nat y ! nat x)[nat c := v]]]\<rparr>)
      else Inl OutOfBounds)"

subsection \<open>The transforms\<close>

text \<open>The literals \<open>0.299\<close>, \<open>0.587\<close>, \<open>0.114\<close> are doubles; \<open>128.0f\<close>, \<open>0.0f\<close>, \<open>255.0f\<close> floats.\<close>

definition convertToGrayscale :: "Image \<Rightarrow> error + Image" where
  "convertToGrayscale input =
     (let height = Image.height input; width = Image.width input in
      bindE (Image_ctor width height 1) (\<lambda>output.
        for_loop 0 height (\<lambda>y.
          for_loop 0 width (\<lambda>x out.
            bindE (getPixel input y x 0) (\<lambda>R.
            bindE (getPixel input y x 1) (\<lambda>G.
            bindE (getPixel input y x 2) (\<lambda>B.
            bindE (fp_to_int
                    (fp_add binary64
                      (fp_add binary64
                        (fp_mul binary64 (round_to binary64 (299 / 1000)) (fp_of_int binary64 R))
                        (fp_mul binary64 (round_to binary64 (587 / 1000)) (fp_of_int binary64 G)))
                      (fp_mul binary64 (round_to binary64 (114 / 1000)) (fp_of_int binary64 B))))
              (\<lambda>gray. setPixel out y x 0 gray)))))) output))"

definition flipHorizontal :: "Image \<Rightarrow> error + Image" where
  "flipHorizontal input =
     (let height = Image.height input; width = Image.width input;
          channels = Image.channels input in
      bindE (Image_ctor width height channels) (\<lambda>output.
        for_loop 0 height (\<lambda>y.
          for_loop 0 width (\<lambda>x.
            for_loop 0 channels (\<lambda>c out.
              bindE (getPixel input y x c) (\<lambda>v.
                setPixel out y (width - 1 - x) c v)))) output))"

definition flipVertical :: "Image \<Rightarrow> error + Image" where
  "flipVertical input =
     (let height = Image.height input; width = Image.width input;
          channels = Image.channels input in
      bindE (Image_ctor width height channels) (\<lambda>output.
        for_loop 0 height (\<lambda>y.
          for_loop 0 width (\<lambda>x.
            for_loop 0 channels (\<lambda>c out.
              bindE (getPixel input y x c) (\<lambda>v.
                setPixel out (height - 1 - y) x c v)))) output))"

definition adjustBrightness :: "Image \<Rightarrow> int \<Rightarrow> error + Image" where
  "adjustBrightness input value =
     (let height = Image.height input; width = Image.width input;
          channels = Image.channels input in
      bindE (Image_ctor width height channels) (\<lambda>output.
        for_loop 0 height (\<lambda>y.
          for_loop 0 width (\<lambda>x.
            for_loop 0 channels (\<lambda>c out.
              bindE (getPixel input y x c) (\<lambda>v.
                let new_value = wrap_int (v + value);
                    new_value = max 0 (min 255 new_value)
                in setPixel out y x c new_value)))) output))"

text \<open>
  The loops of \<open>adjustContrast\<close> run \<open>x\<close> up to \<open>height\<close> and \<open>y\<close> up to \<open>width\<close>,
  and index both images with \<open>(y, x, c)\<close>.
\<close>

definition adjustContrast :: "Image \<Rightarrow> ieee \<Rightarrow> error + Image" where
  "adjustContrast input factor =
     (let height = Image.height input; width = Image.width input;
          channels = Image.channels input in
      bindE (Image_ctor width height channels) (\<lambda>output.
        for_loop 0 height (\<lambda>x.
          for_loop 0 width (\<lambda>y.
            for_loop 0 channels (\<lambda>c out.
              bindE (getPixel input y x c) (\<lambda>v.
                let original = fp_of_int binary32 v;
                    adjusted = fp_add binary32
                                 (fp_mul binary32 factor (fp_sub binary32 original (Fin 128)))
                                 (Fin 128);
                    adjusted = std_max (Fin 0) (std_min (Fin 255) adjusted)
                in bindE (fp_to_int adjusted) (\<lambda>r. setPixel out y x c r))))) output))"

text \<open>The bodies of \<open>applyBlur\<close> and \<open>rotate90\<close> construct the output and return it.\<close>

definition applyBlur :: "Image \<Rightarrow> error + Image" where
  "applyBlur input =
     (let height = Image.height input; width = Image.width input;
          channels = Image.channels input in
      Image_ctor width height channels)"

definition rotate90 :: "Image \<Rightarrow> error + Image" where
  "rotate90 input =
     (let height = Image.height input; width = Image.width input;
          channels = Image.channels input in
      Image_ctor height width channels)"

text \<open>The image \<open>createTestImage\<close> builds before it saves it.\<close>

definition createTestImage :: Image where
  "createTestImage =
     \<lparr>width = 4, height = 4, maxVal = 255, channels = 3,
      data = [[[255, 0, 0], [0, 255, 0], [0, 0, 255], [255, 255, 255]],
              [[255, 255, 0], [255, 0, 255], [0, 255, 255], [128, 128, 128]],
              [[255, 128, 0], [128, 255, 0], [128, 0, 255], [255, 128, 128]],
              [[128, 255, 128], [128, 128, 255], [255, 255, 128], [0, 0, 0]]]\<rparr>"

subsection \<open>Inputs used below\<close>

text \<open>Small grids on which single transforms are run.\<close>

definition nines3x3 :: Image where
  "nines3x3 =
     \<lparr>width = 3, height = 3, maxVal = 255, channels = 1,
      data = [[[9], [9], [9]], [[9], [9], [9]], [[9], [9], [9]]]\<rparr>"

definition pair1x2 :: Image where
  "pair1x2 = \<lparr>width = 2, height = 1, maxVal = 255, channels = 1, data = [[[5], [7]]]\<rparr>"

definition wide2x1 :: Image where
  "wide2x1 = \<lparr>width = 2, height = 1, maxVal = 255, channels = 1, data = [[[10], [20]]]\<rparr>"

definition tall1x2 :: Image where
  "tall1x2 = \<lparr>width = 1, height = 2, maxVal = 255, channels = 1, data = [[[10]], [[20]]]\<rparr>"

text \<open>
  The grid \<open>loadPPM\<close> builds from the file \<open>P3 1 1 100 5 6 7\<close>, whose header gives the
  maximum 100, and a one-pixel grid with a single channel.
\<close>

definition g100 :: Image where
  "g100 = \<lparr>width = 1, height = 1, maxVal = 100, channels = 3, data = [[[5, 6, 7]]]\<rparr>"


subsection \<open>Well-formed grids\<close>

text \<open>
  The class invariant: the three counts are non-negative and the buffer has exactly
  \<open>height\<close> rows of \<open>width\<close> pixels of \<open>channels\<close> samples. A grid with a zero count is
  well formed; the program can construct it.
\<close>

definition wf_image :: "Image \<Rightarrow> bool" where
  "wf_image img \<longleftrightarrow>
     0 \<le> width img \<and> 0 \<le> height img \<and> 0 \<le> channels img \<and>
     length (data img) = nat (height img) \<and>
     (\<forall>row \<in> set (data img). length row = nat (width img) \<and>
        (\<forall>p \<in> set row. length p = nat (channels img)))"

text \<open>Every stored sample lies in \<open>[0, 255]\<close>.\<close>

definition in_range :: "Image \<Rightarrow> bool" where
  "in_range img \<longleftrightarrow> (\<forall>row \<in> set (data img). \<forall>p \<in> set row. \<forall>v \<in> set p. 0 \<le> v \<and> v \<le> 255)"

text \<open>The sample at row \<open>y\<close>, column \<open>x\<close>, channel \<open>c\<close> of a well-formed grid.\<close>

definition sample :: "Image \<Rightarrow> int \<Rightarrow> int \<Rightarrow> int \<Rightarrow> int" where
  "sample img y x c = data img ! nat y ! nat x ! nat c"

text \<open>What every partly written output of a transform satisfies.\<close>

definition out_ok :: "int \<Rightarrow> int \<Rightarrow> int \<Rightarrow> Image \<Rightarrow> bool" where
  "out_ok W H C out \<longleftrightarrow>
     wf_image out \<and> width out = W \<and> height out = H \<and> channels out = C \<and> maxVal out = 255"

text \<open>
  The value the innermost statement of \<open>adjustContrast\<close> stores for the sample \<open>v\<close>, and
  the value \<open>convertToGrayscale\<close> stores for a pixel \<open>(R, G, B)\<close>: the expressions of the
  two definitions above, named.
\<close>

definition contrast_sample :: "ieee \<Rightarrow> int \<Rightarrow> error + int" where
  "contrast_sample factor v =
     fp_to_int (std_max (Fin 0) (std_min (Fin 255)
       (fp_add binary32 (fp_mul binary32 factor (fp_sub binary32 (fp_of_int binary32 v) (Fin 128)))
          (Fin 128))))"

definition gray_sample :: "int \<Rightarrow> int \<Rightarrow> int \<Rightarrow> error + int" where
  "gray_sample R G B =
     fp_to_int
       (fp_add binary64
         (fp_add binary64
           (fp_mul binary64 (round_to binary64 (299 / 1000)) (fp_of_int binary64 R))
           (fp_mul binary64 (round_to binary64 (587 / 1000)) (fp_of_int binary64 G)))
         (fp_mul binary64 (round_to binary64 (114 / 1000)) (fp_of_int binary64 B)))"

section \<open>The error monad and the loop rule\<close>

lemma bindE_Inr [simp]: "bindE (Inr v) f = f v"
  by (simp add: bindE_def)

lemma bindE_Inl [simp]: "bindE (Inl e) f = Inl e"
  by (simp add: bindE_def)

lemma for_loop_done: "\<not> i < n \<Longrightarrow> for_loop i n body s = Inr s"
  by (simp add: for_loop.simps)

lemma for_loop_fail: "i < n \<Longrightarrow> body i s = Inl e \<Longrightarrow> for_loop i n body s = Inl e"
  by (simp add: for_loop.simps)

lemma for_loop_step:
  "i < n \<Longrightarrow> body i s = Inr s' \<Longrightarrow> for_loop i n body s = for_loop (i + 1) n body s'"
  by (subst for_loop.simps) simp

lemma for_loop_rule:
  assumes "i \<le> n" and "I i s"
    and "\<And>j t. i \<le> j \<Longrightarrow> j < n \<Longrightarrow> I j t \<Longrightarrow> \<exists>t'. body j t = Inr t' \<and> I (j + 1) t'"
  shows "\<exists>s'. for_loop i n body s = Inr s' \<and> I n s'"
  using assms
proof (induction i n body s rule: for_loop.induct)
  case (1 i n body s)
  show ?case
  proof (cases "i < n")
    case False
    with "1.prems" have "i = n" by simp
    with "1.prems" show ?thesis by (simp add: for_loop_done)
  next
    case True
    from "1.prems"(3) [OF order_refl True "1.prems"(2)]
    obtain t where t: "body i s = Inr t" "I (i + 1) t" by blast
    have "\<exists>s'. for_loop (i + 1) n body t = Inr s' \<and> I n s'"
    proof (rule "1.IH" [OF True t(1)])
      show "i + 1 \<le> n" using True by simp
      show "I (i + 1) t" by (rule t(2))
      fix j u assume "i + 1 \<le> j" "j < n" "I j u"
      then show "\<exists>t'. body j u = Inr t' \<and> I (j + 1) t'"
        using "1.prems"(3) [of j u] by simp
    qed
    then show ?thesis using for_loop_step [of i n body s t] True t(1) by simp
  qed
qed


section \<open>Reading and writing a well-formed grid\<close>

lemma wf_image_row:
  assumes "wf_image img" "0 \<le> y" "y < height img"
  shows "nat y < length (data img)" "length (data img ! nat y) = nat (width img)"
  using assms by (auto simp: wf_image_def)

lemma wf_image_pixel:
  assumes "wf_image img" "0 \<le> y" "y < height img" "0 \<le> x" "x < width img"
  shows "nat x < length (data img ! nat y)"
    "length (data img ! nat y ! nat x) = nat (channels img)"
proof -
  have r: "data img ! nat y \<in> set (data img)" "length (data img ! nat y) = nat (width img)"
    using wf_image_row [OF assms(1-3)] by auto
  then show "nat x < length (data img ! nat y)" using assms(4,5) by simp
  then have "data img ! nat y ! nat x \<in> set (data img ! nat y)" by simp
  with r(1) assms(1) show "length (data img ! nat y ! nat x) = nat (channels img)"
    by (auto simp: wf_image_def)
qed

lemma getPixel_wf:
  assumes "wf_image img" "0 \<le> y" "y < height img" "0 \<le> x" "x < width img"
    "0 \<le> c" "c < channels img"
  shows "getPixel img y x c = Inr (sample img y x c)"
  using wf_image_row [OF assms(1-3)] wf_image_pixel [OF assms(1-5)] assms(2,4,6,7)
  by (simp add: getPixel_def sample_def)

lemma setPixel_wf:
  assumes "wf_image img" "0 \<le> y" "y < height img" "0 \<le> x" "x < width img"
    "0 \<le> c" "c < channels img"
  shows "\<exists>img'. setPixel img y x c v = Inr img' \<and> wf_image img' \<and>
           width img' = width img \<and> height img' = height img \<and>
           channels img' = channels img \<and> maxVal img' = maxVal img \<and>
           sample img' y x c = v \<and>
           (\<forall>y' x' c'. 0 \<le> y' \<and> 0 \<le> x' \<and> 0 \<le> c' \<and> (y', x', c') \<noteq> (y, x, c)
               \<longrightarrow> sample img' y' x' c' = sample img y' x' c')"
proof -
  let ?d = "data img"
  let ?p = "(?d ! nat y ! nat x)[nat c := v]"
  let ?r = "(?d ! nat y)[nat x := ?p]"
  let ?img = "img\<lparr>data := ?d[nat y := ?r]\<rparr>"
  note row = wf_image_row [OF assms(1-3)]
  note pix = wf_image_pixel [OF assms(1-5)]
  have s: "setPixel img y x c v = Inr ?img"
    using row pix assms(2,4,6,7) by (simp add: setPixel_def)
  have wf: "wf_image ?img"
    unfolding wf_image_def
  proof (intro conjI ballI)
    show "0 \<le> width ?img" "0 \<le> height ?img" "0 \<le> channels ?img"
      using assms(1) by (simp_all add: wf_image_def)
    show "length (data ?img) = nat (height ?img)" using assms(1) by (simp add: wf_image_def)
  next
    fix rw assume "rw \<in> set (data ?img)"
    then have rw: "rw = ?r \<or> rw \<in> set ?d"
      using set_update_subset_insert [of ?d "nat y" ?r] by auto
    then show "length rw = nat (width ?img)" using row assms(1) by (auto simp: wf_image_def)
    fix p assume "p \<in> set rw"
    with rw have "p \<in> set ?r \<or> (\<exists>r' \<in> set ?d. p \<in> set r')" by auto
    moreover have "set ?r \<subseteq> insert ?p (set (?d ! nat y))" by (rule set_update_subset_insert)
    moreover have "?d ! nat y \<in> set ?d" using row by simp
    ultimately have "p = ?p \<or> (\<exists>r' \<in> set ?d. p \<in> set r')" by auto
    then show "length p = nat (channels ?img)" using pix assms(1) by (auto simp: wf_image_def)
  qed
  have same: "sample ?img y x c = v"
    using row pix assms(6,7) by (simp add: sample_def)
  have other: "sample ?img y' x' c' = sample img y' x' c'"
    if "0 \<le> y'" "0 \<le> x'" "0 \<le> c'" "(y', x', c') \<noteq> (y, x, c)" for y' x' c'
  proof (cases "y' = y")
    case False
    then have "nat y' \<noteq> nat y" using that(1) assms(2) by simp
    then show ?thesis by (simp add: sample_def)
  next
    case y: True
    show ?thesis
    proof (cases "x' = x")
      case False
      then have "nat x' \<noteq> nat x" using that(2) assms(4) by simp
      then show ?thesis using y row by (simp add: sample_def)
    next
      case True
      with y that(4) have "c' \<noteq> c" by simp
      then have "nat c' \<noteq> nat c" using that(3) assms(6) by simp
      then show ?thesis using y True row pix by (simp add: sample_def)
    qed
  qed
  show ?thesis using s wf same other by (intro exI [of _ ?img]) simp
qed

lemma image_eqI:
  assumes "wf_image A" "wf_image B" "width A = width B" "height A = height B"
    "channels A = channels B" "maxVal A = maxVal B"
    and "\<And>y x c. 0 \<le> y \<Longrightarrow> y < height A \<Longrightarrow> 0 \<le> x \<Longrightarrow> x < width A \<Longrightarrow>
           0 \<le> c \<Longrightarrow> c < channels A \<Longrightarrow> sample A y x c = sample B y x c"
  shows "A = B"
proof -
  have "data A = data B"
  proof (rule nth_equalityI)
    show "length (data A) = length (data B)" using assms(1,2,4) by (simp add: wf_image_def)
    fix i assume i: "i < length (data A)"
    then have iy: "0 \<le> int i" "int i < height A" using assms(1) by (auto simp: wf_image_def)
    have iyB: "int i < height B" using iy assms(4) by simp
    show "data A ! i = data B ! i"
    proof (rule nth_equalityI)
      show "length (data A ! i) = length (data B ! i)"
        using wf_image_row(2) [OF assms(1) iy] wf_image_row(2) [OF assms(2) iy(1) iyB] assms(3)
        by simp
      fix j assume "j < length (data A ! i)"
      then have jx: "0 \<le> int j" "int j < width A"
        using wf_image_row(2) [OF assms(1) iy] by auto
      have jxB: "int j < width B" using jx assms(3) by simp
      show "data A ! i ! j = data B ! i ! j"
      proof (rule nth_equalityI)
        show "length (data A ! i ! j) = length (data B ! i ! j)"
          using wf_image_pixel(2) [OF assms(1) iy jx]
            wf_image_pixel(2) [OF assms(2) iy(1) iyB jx(1) jxB] assms(5) by simp
        fix k assume "k < length (data A ! i ! j)"
        then have kc: "0 \<le> int k" "int k < channels A"
          using wf_image_pixel(2) [OF assms(1) iy jx] by auto
        show "data A ! i ! j ! k = data B ! i ! j ! k"
          using assms(7) [OF iy jx kc] by (simp add: sample_def)
      qed
    qed
  qed
  then show ?thesis using assms(3-6) by simp
qed

lemma Image_ctor_ok:
  assumes "0 \<le> w" "0 \<le> h" "0 \<le> ch"
  shows "\<exists>out. Image_ctor w h ch = Inr out \<and> out_ok w h ch out \<and>
           data out = replicate (nat h) (replicate (nat w) (replicate (nat ch) 0))"
  using assms by (simp add: Image_ctor_def out_ok_def wf_image_def)

lemma in_range_sample:
  assumes "wf_image img" "in_range img" "0 \<le> y" "y < height img" "0 \<le> x" "x < width img"
    "0 \<le> c" "c < channels img"
  shows "0 \<le> sample img y x c \<and> sample img y x c \<le> 255"
proof -
  have "data img ! nat y \<in> set (data img)" using wf_image_row [OF assms(1,3,4)] by simp
  moreover have p: "data img ! nat y ! nat x \<in> set (data img ! nat y)"
    using wf_image_pixel [OF assms(1,3-6)] by simp
  moreover have "sample img y x c \<in> set (data img ! nat y ! nat x)"
    using wf_image_pixel [OF assms(1,3-6)] assms(7,8) by (simp add: sample_def)
  ultimately show ?thesis using assms(2) unfolding in_range_def by blast
qed

lemma in_rangeI:
  assumes "wf_image img"
    and "\<And>y x c. 0 \<le> y \<Longrightarrow> y < height img \<Longrightarrow> 0 \<le> x \<Longrightarrow> x < width img \<Longrightarrow>
           0 \<le> c \<Longrightarrow> c < channels img \<Longrightarrow> 0 \<le> sample img y x c \<and> sample img y x c \<le> 255"
  shows "in_range img"
  unfolding in_range_def
proof (intro ballI)
  fix row p v assume a: "row \<in> set (data img)" "p \<in> set row" "v \<in> set p"
  from a(1) obtain i where i: "i < length (data img)" "row = data img ! i"
    by (auto simp: in_set_conv_nth)
  from a(2) obtain j where j: "j < length row" "p = row ! j" by (auto simp: in_set_conv_nth)
  from a(3) obtain k where k: "k < length p" "v = p ! k" by (auto simp: in_set_conv_nth)
  have iy: "0 \<le> int i" "int i < height img" using i(1) assms(1) by (auto simp: wf_image_def)
  have jx: "0 \<le> int j" "int j < width img"
    using j(1) i(2) wf_image_row(2) [OF assms(1) iy] by auto
  have kc: "0 \<le> int k" "int k < channels img"
    using k(1) j(2) i(2) wf_image_pixel(2) [OF assms(1) iy jx] by auto
  show "0 \<le> v \<and> v \<le> 255"
    using assms(2) [OF iy jx kc] i(2) j(2) k(2) by (simp add: sample_def)
qed

lemma setPixel_ok:
  assumes "out_ok W H C out" "0 \<le> y" "y < H" "0 \<le> x" "x < W" "0 \<le> c" "c < C"
  shows "\<exists>out'. setPixel out y x c v = Inr out' \<and> out_ok W H C out' \<and>
           sample out' y x c = v \<and>
           (\<forall>y' x' c'. 0 \<le> y' \<and> 0 \<le> x' \<and> 0 \<le> c' \<and> (y', x', c') \<noteq> (y, x, c)
               \<longrightarrow> sample out' y' x' c' = sample out y' x' c')"
proof -
  from assms have a: "wf_image out" "y < height out" "x < width out" "c < channels out"
    by (simp_all add: out_ok_def)
  from setPixel_wf [OF a(1) assms(2) a(2) assms(4) a(3) assms(6) a(4), of v] assms(1)
  show ?thesis by (auto simp: out_ok_def)
qed

lemma channel_loop:
  assumes ok: "out_ok W H C out" and pos: "0 \<le> y" "y < H" "0 \<le> x" "x < W"
    and body: "\<And>c im. 0 \<le> c \<Longrightarrow> c < C \<Longrightarrow> out_ok W H C im \<Longrightarrow> B c im = setPixel im y x c (val c)"
  shows "\<exists>out'. for_loop 0 C B out = Inr out' \<and> out_ok W H C out' \<and>
           (\<forall>c. 0 \<le> c \<and> c < C \<longrightarrow> sample out' y x c = val c) \<and>
           (\<forall>y' x' c. 0 \<le> y' \<and> 0 \<le> x' \<and> 0 \<le> c \<and> (y', x') \<noteq> (y, x)
               \<longrightarrow> sample out' y' x' c = sample out y' x' c)"
proof -
  define I where "I = (\<lambda>n im. out_ok W H C im \<and>
      (\<forall>c. 0 \<le> c \<and> c < n \<longrightarrow> sample im y x c = val c) \<and>
      (\<forall>y' x' c. 0 \<le> y' \<and> 0 \<le> x' \<and> 0 \<le> c \<and> (y', x') \<noteq> (y, x)
          \<longrightarrow> sample im y' x' c = sample out y' x' c))"
  have C0: "0 \<le> C" using ok by (simp add: out_ok_def wf_image_def)
  have "\<exists>out'. for_loop 0 C B out = Inr out' \<and> I C out'"
  proof (rule for_loop_rule [OF C0])
    show "I 0 out" using ok by (simp add: I_def)
    fix j t assume j: "0 \<le> j" "j < C" and t: "I j t"
    then have okt: "out_ok W H C t" by (simp add: I_def)
    from setPixel_ok [OF okt pos j, of "val j"]
    obtain t' where t': "setPixel t y x j (val j) = Inr t'" "out_ok W H C t'"
      "sample t' y x j = val j"
      "\<And>y' x' c'. 0 \<le> y' \<Longrightarrow> 0 \<le> x' \<Longrightarrow> 0 \<le> c' \<Longrightarrow> (y', x', c') \<noteq> (y, x, j)
          \<Longrightarrow> sample t' y' x' c' = sample t y' x' c'"
      by blast
    have "I (j + 1) t'"
      unfolding I_def
    proof (intro conjI allI impI)
      show "out_ok W H C t'" by (rule t'(2))
      fix c assume c: "0 \<le> c \<and> c < j + 1"
      show "sample t' y x c = val c"
      proof (cases "c = j")
        case True then show ?thesis using t'(3) by simp
      next
        case False
        then have "sample t' y x c = sample t y x c" using t'(4) [of y x c] pos c by simp
        then show ?thesis using t c False by (simp add: I_def)
      qed
    next
      fix y' x' :: int and c :: int
      assume a: "0 \<le> y' \<and> 0 \<le> x' \<and> 0 \<le> c \<and> (y', x') \<noteq> (y, x)"
      then have "sample t' y' x' c = sample t y' x' c" using t'(4) [of y' x' c] by auto
      then show "sample t' y' x' c = sample out y' x' c" using t a by (simp add: I_def)
    qed
    then show "\<exists>t'. B j t = Inr t' \<and> I (j + 1) t'"
      using body [OF j okt] t'(1) by auto
  qed
  then show ?thesis by (auto simp: I_def)
qed

lemma pixel_loops:
  fixes P :: "int \<Rightarrow> int \<Rightarrow> Image \<Rightarrow> error + Image"
  assumes ok: "out_ok W H C out0" and N: "0 \<le> N1" "0 \<le> N2"
    and step: "\<And>a b out. 0 \<le> a \<Longrightarrow> a < N1 \<Longrightarrow> 0 \<le> b \<Longrightarrow> b < N2 \<Longrightarrow> out_ok W H C out \<Longrightarrow>
        \<exists>out'. P a b out = Inr out' \<and> out_ok W H C out' \<and>
          (\<forall>c. 0 \<le> c \<and> c < C \<longrightarrow> sample out' (dy a b) (dx a b) c = F (dy a b) (dx a b) c) \<and>
          (\<forall>y x c. 0 \<le> y \<and> 0 \<le> x \<and> 0 \<le> c \<and> (y, x) \<noteq> (dy a b, dx a b)
              \<longrightarrow> sample out' y x c = sample out y x c)"
    and dest: "\<And>a b. 0 \<le> a \<Longrightarrow> a < N1 \<Longrightarrow> 0 \<le> b \<Longrightarrow> b < N2 \<Longrightarrow> 0 \<le> dy a b \<and> 0 \<le> dx a b"
  shows "\<exists>out'. for_loop 0 N1 (\<lambda>a. for_loop 0 N2 (\<lambda>b. P a b)) out0 = Inr out' \<and>
           out_ok W H C out' \<and>
           (\<forall>a b c. 0 \<le> a \<and> a < N1 \<and> 0 \<le> b \<and> b < N2 \<and> 0 \<le> c \<and> c < C
               \<longrightarrow> sample out' (dy a b) (dx a b) c = F (dy a b) (dx a b) c)"
proof -
  define filled where "filled = (\<lambda>D im. out_ok W H C im \<and>
      (\<forall>a b c. D a b \<and> 0 \<le> a \<and> a < N1 \<and> 0 \<le> b \<and> b < N2 \<and> 0 \<le> c \<and> c < C
          \<longrightarrow> sample im (dy a b) (dx a b) c = F (dy a b) (dx a b) c))"
  have mono: "filled D' im" if "filled D im" "\<And>a b. D' a b \<Longrightarrow> b < N2 \<Longrightarrow> D a b" for D D' im
    using that unfolding filled_def by blast
  have one: "\<exists>im'. P a b im = Inr im' \<and> filled (\<lambda>a' b'. D a' b' \<or> (a' = a \<and> b' = b)) im'"
    if "0 \<le> a" "a < N1" "0 \<le> b" "b < N2" "filled D im" for a b im D
  proof -
    from that(5) have okim: "out_ok W H C im" by (simp add: filled_def)
    from step [OF that(1-4) okim]
    obtain im' where im': "P a b im = Inr im'" "out_ok W H C im'"
      "\<And>c. 0 \<le> c \<Longrightarrow> c < C \<Longrightarrow> sample im' (dy a b) (dx a b) c = F (dy a b) (dx a b) c"
      "\<And>y x c. 0 \<le> y \<Longrightarrow> 0 \<le> x \<Longrightarrow> 0 \<le> c \<Longrightarrow> (y, x) \<noteq> (dy a b, dx a b)
          \<Longrightarrow> sample im' y x c = sample im y x c"
      by blast
    have "filled (\<lambda>a' b'. D a' b' \<or> (a' = a \<and> b' = b)) im'"
      unfolding filled_def
    proof (intro conjI allI impI)
      show "out_ok W H C im'" by (rule im'(2))
      fix a' b' c
      assume h: "(D a' b' \<or> a' = a \<and> b' = b) \<and> 0 \<le> a' \<and> a' < N1 \<and> 0 \<le> b' \<and> b' < N2 \<and> 0 \<le> c \<and> c < C"
      show "sample im' (dy a' b') (dx a' b') c = F (dy a' b') (dx a' b') c"
      proof (cases "(dy a' b', dx a' b') = (dy a b, dx a b)")
        case True
        then show ?thesis using im'(3) [of c] h by simp
      next
        case False
        then have d: "D a' b'" using h by auto
        have "sample im' (dy a' b') (dx a' b') c = sample im (dy a' b') (dx a' b') c"
          using im'(4) [OF _ _ _ False, of c] dest [of a' b'] h by simp
        then show ?thesis using that(5) d h by (simp add: filled_def)
      qed
    qed
    with im'(1) show ?thesis by blast
  qed
  have row: "\<exists>im'. for_loop 0 N2 (\<lambda>b. P a b) im = Inr im' \<and> filled (\<lambda>a' b'. a' < a + 1) im'"
    if a: "0 \<le> a" "a < N1" and im: "filled (\<lambda>a' b'. a' < a) im" for a im
  proof -
    have "\<exists>im'. for_loop 0 N2 (\<lambda>b. P a b) im = Inr im'
            \<and> filled (\<lambda>a' b'. a' < a \<or> (a' = a \<and> b' < N2)) im'"
    proof (rule for_loop_rule [OF N(2), where I = "\<lambda>b. filled (\<lambda>a' b'. a' < a \<or> (a' = a \<and> b' < b))"])
      show "filled (\<lambda>a' b'. a' < a \<or> a' = a \<and> b' < 0) im"
        using im by (auto simp: filled_def)
      fix j t assume j: "0 \<le> j" "j < N2" and t: "filled (\<lambda>a' b'. a' < a \<or> a' = a \<and> b' < j) t"
      from one [OF a j t] obtain t' where t': "P a j t = Inr t'"
        "filled (\<lambda>a' b'. (a' < a \<or> a' = a \<and> b' < j) \<or> a' = a \<and> b' = j) t'" by blast
      have "filled (\<lambda>a' b'. a' < a \<or> a' = a \<and> b' < j + 1) t'"
        by (rule mono [OF t'(2)]) auto
      with t'(1) show "\<exists>t'. P a j t = Inr t' \<and> filled (\<lambda>a' b'. a' < a \<or> a' = a \<and> b' < j + 1) t'"
        by blast
    qed
    then obtain im' where im': "for_loop 0 N2 (\<lambda>b. P a b) im = Inr im'"
      "filled (\<lambda>a' b'. a' < a \<or> (a' = a \<and> b' < N2)) im'" by blast
    have "filled (\<lambda>a' b'. a' < a + 1) im'"
      by (rule mono [OF im'(2)]) auto
    with im'(1) show ?thesis by blast
  qed
  have "\<exists>out'. for_loop 0 N1 (\<lambda>a. for_loop 0 N2 (\<lambda>b. P a b)) out0 = Inr out'
          \<and> filled (\<lambda>a' b'. a' < N1) out'"
  proof (rule for_loop_rule [OF N(1), where I = "\<lambda>a. filled (\<lambda>a' b'. a' < a)"])
    show "filled (\<lambda>a' b'. a' < 0) out0" using ok by (auto simp: filled_def)
    fix j t assume "0 \<le> j" "j < N1" "filled (\<lambda>a' b'. a' < j) t"
    then show "\<exists>t'. for_loop 0 N2 (\<lambda>b. P j b) t = Inr t' \<and> filled (\<lambda>a' b'. a' < j + 1) t'"
      by (rule row)
  qed
  then show ?thesis by (auto simp: filled_def)
qed

section \<open>Flips and brightness\<close>

lemma flipHorizontal_spec:
  assumes wf: "wf_image G"
  shows "\<exists>out. flipHorizontal G = Inr out \<and> out_ok (width G) (height G) (channels G) out \<and>
           (\<forall>y x c. 0 \<le> y \<and> y < height G \<and> 0 \<le> x \<and> x < width G \<and> 0 \<le> c \<and> c < channels G
               \<longrightarrow> sample out y (width G - 1 - x) c = sample G y x c)"
proof -
  let ?W = "width G" and ?H = "height G" and ?C = "channels G"
  from wf have nn: "0 \<le> ?W" "0 \<le> ?H" "0 \<le> ?C" by (simp_all add: wf_image_def)
  from Image_ctor_ok [OF nn] obtain out0 where
    out0: "Image_ctor ?W ?H ?C = Inr out0" "out_ok ?W ?H ?C out0" by blast
  let ?B = "\<lambda>y x c out. bindE (getPixel G y x c) (\<lambda>v. setPixel out y (?W - 1 - x) c v)"
  have "\<exists>out'. for_loop 0 ?H (\<lambda>y. for_loop 0 ?W (\<lambda>x. for_loop 0 ?C (?B y x))) out0 = Inr out' \<and>
          out_ok ?W ?H ?C out' \<and>
          (\<forall>a b c. 0 \<le> a \<and> a < ?H \<and> 0 \<le> b \<and> b < ?W \<and> 0 \<le> c \<and> c < ?C
              \<longrightarrow> sample out' a (?W - 1 - b) c = sample G a (?W - 1 - (?W - 1 - b)) c)"
  proof (rule pixel_loops [where P = "\<lambda>y x. for_loop 0 ?C (?B y x)" and dy = "\<lambda>y x. y"
        and dx = "\<lambda>y x. ?W - 1 - x" and F = "\<lambda>y x c. sample G y (?W - 1 - x) c",
        OF out0(2) nn(2) nn(1)])
    fix a b out
    assume ab: "0 \<le> a" "a < ?H" "0 \<le> b" "b < ?W" and ok: "out_ok ?W ?H ?C out"
    have d: "0 \<le> ?W - 1 - b" "?W - 1 - b < ?W" using ab by simp_all
    have "\<exists>out'. for_loop 0 ?C (?B a b) out = Inr out' \<and> out_ok ?W ?H ?C out' \<and>
           (\<forall>c. 0 \<le> c \<and> c < ?C \<longrightarrow> sample out' a (?W - 1 - b) c = sample G a b c) \<and>
           (\<forall>y' x' c. 0 \<le> y' \<and> 0 \<le> x' \<and> 0 \<le> c \<and> (y', x') \<noteq> (a, ?W - 1 - b)
               \<longrightarrow> sample out' y' x' c = sample out y' x' c)"
      by (rule channel_loop [OF ok ab(1,2) d]) (simp add: getPixel_wf [OF wf ab])
    then show "\<exists>out'. for_loop 0 ?C (?B a b) out = Inr out' \<and> out_ok ?W ?H ?C out' \<and>
          (\<forall>c. 0 \<le> c \<and> c < ?C \<longrightarrow> sample out' a (?W - 1 - b) c = sample G a (?W - 1 - (?W - 1 - b)) c) \<and>
          (\<forall>y x c. 0 \<le> y \<and> 0 \<le> x \<and> 0 \<le> c \<and> (y, x) \<noteq> (a, ?W - 1 - b)
              \<longrightarrow> sample out' y x c = sample out y x c)"
      by simp
  next
    fix a b :: int assume "0 \<le> a" "a < ?H" "0 \<le> b" "b < ?W"
    then show "0 \<le> a \<and> 0 \<le> ?W - 1 - b" by simp
  qed
  then show ?thesis using out0(1) by (simp add: flipHorizontal_def Let_def)
qed

lemma flipVertical_spec:
  assumes wf: "wf_image G"
  shows "\<exists>out. flipVertical G = Inr out \<and> out_ok (width G) (height G) (channels G) out \<and>
           (\<forall>y x c. 0 \<le> y \<and> y < height G \<and> 0 \<le> x \<and> x < width G \<and> 0 \<le> c \<and> c < channels G
               \<longrightarrow> sample out (height G - 1 - y) x c = sample G y x c)"
proof -
  let ?W = "width G" and ?H = "height G" and ?C = "channels G"
  from wf have nn: "0 \<le> ?W" "0 \<le> ?H" "0 \<le> ?C" by (simp_all add: wf_image_def)
  from Image_ctor_ok [OF nn] obtain out0 where
    out0: "Image_ctor ?W ?H ?C = Inr out0" "out_ok ?W ?H ?C out0" by blast
  let ?B = "\<lambda>y x c out. bindE (getPixel G y x c) (\<lambda>v. setPixel out (?H - 1 - y) x c v)"
  have "\<exists>out'. for_loop 0 ?H (\<lambda>y. for_loop 0 ?W (\<lambda>x. for_loop 0 ?C (?B y x))) out0 = Inr out' \<and>
          out_ok ?W ?H ?C out' \<and>
          (\<forall>a b c. 0 \<le> a \<and> a < ?H \<and> 0 \<le> b \<and> b < ?W \<and> 0 \<le> c \<and> c < ?C
              \<longrightarrow> sample out' (?H - 1 - a) b c = sample G (?H - 1 - (?H - 1 - a)) b c)"
  proof (rule pixel_loops [where P = "\<lambda>y x. for_loop 0 ?C (?B y x)" and dy = "\<lambda>y x. ?H - 1 - y"
        and dx = "\<lambda>y x. x" and F = "\<lambda>y x c. sample G (?H - 1 - y) x c",
        OF out0(2) nn(2) nn(1)])
    fix a b out
    assume ab: "0 \<le> a" "a < ?H" "0 \<le> b" "b < ?W" and ok: "out_ok ?W ?H ?C out"
    have d: "0 \<le> ?H - 1 - a" "?H - 1 - a < ?H" using ab by simp_all
    have "\<exists>out'. for_loop 0 ?C (?B a b) out = Inr out' \<and> out_ok ?W ?H ?C out' \<and>
           (\<forall>c. 0 \<le> c \<and> c < ?C \<longrightarrow> sample out' (?H - 1 - a) b c = sample G a b c) \<and>
           (\<forall>y' x' c. 0 \<le> y' \<and> 0 \<le> x' \<and> 0 \<le> c \<and> (y', x') \<noteq> (?H - 1 - a, b)
               \<longrightarrow> sample out' y' x' c = sample out y' x' c)"
      by (rule channel_loop [OF ok d ab(3,4)]) (simp add: getPixel_wf [OF wf ab])
    then show "\<exists>out'. for_loop 0 ?C (?B a b) out = Inr out' \<and> out_ok ?W ?H ?C out' \<and>
          (\<forall>c. 0 \<le> c \<and> c < ?C \<longrightarrow> sample out' (?H - 1 - a) b c = sample G (?H - 1 - (?H - 1 - a)) b c) \<and>
          (\<forall>y x c. 0 \<le> y \<and> 0 \<le> x \<and> 0 \<le> c \<and> (y, x) \<noteq> (?H - 1 - a, b)
              \<longrightarrow> sample out' y x c = sample out y x c)"
      by simp
  next
    fix a b :: int assume "0 \<le> a" "a < ?H" "0 \<le> b" "b < ?W"
    then show "0 \<le> ?H - 1 - a \<and> 0 \<le> b" by simp
  qed
  then show ?thesis using out0(1) by (simp add: flipVertical_def Let_def)
qed

lemma adjustBrightness_spec:
  assumes wf: "wf_image G"
  shows "\<exists>out. adjustBrightness G v = Inr out \<and> out_ok (width G) (height G) (channels G) out \<and>
           (\<forall>y x c. 0 \<le> y \<and> y < height G \<and> 0 \<le> x \<and> x < width G \<and> 0 \<le> c \<and> c < channels G
               \<longrightarrow> sample out y x c = max 0 (min 255 (wrap_int (sample G y x c + v))))"
proof -
  let ?W = "width G" and ?H = "height G" and ?C = "channels G"
  from wf have nn: "0 \<le> ?W" "0 \<le> ?H" "0 \<le> ?C" by (simp_all add: wf_image_def)
  from Image_ctor_ok [OF nn] obtain out0 where
    out0: "Image_ctor ?W ?H ?C = Inr out0" "out_ok ?W ?H ?C out0" by blast
  let ?B = "\<lambda>y x c out. bindE (getPixel G y x c)
              (\<lambda>s. setPixel out y x c (max 0 (min 255 (wrap_int (s + v)))))"
  have "\<exists>out'. for_loop 0 ?H (\<lambda>y. for_loop 0 ?W (\<lambda>x. for_loop 0 ?C (?B y x))) out0 = Inr out' \<and>
          out_ok ?W ?H ?C out' \<and>
          (\<forall>a b c. 0 \<le> a \<and> a < ?H \<and> 0 \<le> b \<and> b < ?W \<and> 0 \<le> c \<and> c < ?C
              \<longrightarrow> sample out' a b c = max 0 (min 255 (wrap_int (sample G a b c + v))))"
  proof (rule pixel_loops [where P = "\<lambda>y x. for_loop 0 ?C (?B y x)" and dy = "\<lambda>y x. y"
        and dx = "\<lambda>y x. x" and F = "\<lambda>y x c. max 0 (min 255 (wrap_int (sample G y x c + v)))",
        OF out0(2) nn(2) nn(1)])
    fix a b out
    assume ab: "0 \<le> a" "a < ?H" "0 \<le> b" "b < ?W" and ok: "out_ok ?W ?H ?C out"
    show "\<exists>out'. for_loop 0 ?C (?B a b) out = Inr out' \<and> out_ok ?W ?H ?C out' \<and>
           (\<forall>c. 0 \<le> c \<and> c < ?C \<longrightarrow> sample out' a b c = max 0 (min 255 (wrap_int (sample G a b c + v)))) \<and>
           (\<forall>y' x' c. 0 \<le> y' \<and> 0 \<le> x' \<and> 0 \<le> c \<and> (y', x') \<noteq> (a, b)
               \<longrightarrow> sample out' y' x' c = sample out y' x' c)"
      by (rule channel_loop [OF ok ab]) (simp add: getPixel_wf [OF wf ab])
  next
    fix a b :: int assume "0 \<le> a" "a < ?H" "0 \<le> b" "b < ?W"
    then show "0 \<le> a \<and> 0 \<le> b" by simp
  qed
  then show ?thesis using out0(1) by (simp add: adjustBrightness_def Let_def)
qed

lemma flipHorizontal_twice:
  assumes wf: "wf_image G"
  shows "bindE (flipHorizontal G) flipHorizontal = Inr (G\<lparr>maxVal := 255\<rparr>)"
proof -
  let ?W = "width G" and ?H = "height G" and ?C = "channels G"
  from flipHorizontal_spec [OF wf] obtain G1 where
    G1: "flipHorizontal G = Inr G1" "out_ok ?W ?H ?C G1"
    "\<And>y x c. 0 \<le> y \<Longrightarrow> y < ?H \<Longrightarrow> 0 \<le> x \<Longrightarrow> x < ?W \<Longrightarrow> 0 \<le> c \<Longrightarrow> c < ?C
        \<Longrightarrow> sample G1 y (?W - 1 - x) c = sample G y x c"
    by blast
  have d1: "width G1 = ?W" "height G1 = ?H" "channels G1 = ?C" and wf1: "wf_image G1"
    using G1(2) by (simp_all add: out_ok_def)
  from flipHorizontal_spec [OF wf1] obtain G2 where
    G2: "flipHorizontal G1 = Inr G2" "out_ok ?W ?H ?C G2"
    "\<And>y x c. 0 \<le> y \<Longrightarrow> y < ?H \<Longrightarrow> 0 \<le> x \<Longrightarrow> x < ?W \<Longrightarrow> 0 \<le> c \<Longrightarrow> c < ?C
        \<Longrightarrow> sample G2 y (?W - 1 - x) c = sample G1 y x c"
    unfolding d1 by blast
  have "G2 = G\<lparr>maxVal := 255\<rparr>"
  proof (rule image_eqI)
    show "wf_image G2" using G2(2) by (simp add: out_ok_def)
    show "wf_image (G\<lparr>maxVal := 255\<rparr>)" using wf by (simp add: wf_image_def)
    show "width G2 = width (G\<lparr>maxVal := 255\<rparr>)" "height G2 = height (G\<lparr>maxVal := 255\<rparr>)"
      "channels G2 = channels (G\<lparr>maxVal := 255\<rparr>)" "maxVal G2 = maxVal (G\<lparr>maxVal := 255\<rparr>)"
      using G2(2) by (simp_all add: out_ok_def)
    fix y x c
    assume a: "0 \<le> y" "y < height G2" "0 \<le> x" "x < width G2" "0 \<le> c" "c < channels G2"
    then have b: "y < ?H" "x < ?W" "c < ?C" using G2(2) by (simp_all add: out_ok_def)
    have x': "0 \<le> ?W - 1 - x" "?W - 1 - x < ?W" using a(3) b(2) by simp_all
    have "sample G2 y (?W - 1 - (?W - 1 - x)) c = sample G1 y (?W - 1 - x) c"
      by (rule G2(3) [OF a(1) b(1) x' a(5) b(3)])
    also have "\<dots> = sample G y x c" by (rule G1(3) [OF a(1) b(1) a(3) b(2) a(5) b(3)])
    finally show "sample G2 y x c = sample (G\<lparr>maxVal := 255\<rparr>) y x c" by (simp add: sample_def)
  qed
  then show ?thesis using G1(1) G2(1) by simp
qed

lemma flipVertical_twice:
  assumes wf: "wf_image G"
  shows "bindE (flipVertical G) flipVertical = Inr (G\<lparr>maxVal := 255\<rparr>)"
proof -
  let ?W = "width G" and ?H = "height G" and ?C = "channels G"
  from flipVertical_spec [OF wf] obtain G1 where
    G1: "flipVertical G = Inr G1" "out_ok ?W ?H ?C G1"
    "\<And>y x c. 0 \<le> y \<Longrightarrow> y < ?H \<Longrightarrow> 0 \<le> x \<Longrightarrow> x < ?W \<Longrightarrow> 0 \<le> c \<Longrightarrow> c < ?C
        \<Longrightarrow> sample G1 (?H - 1 - y) x c = sample G y x c"
    by blast
  have d1: "width G1 = ?W" "height G1 = ?H" "channels G1 = ?C" and wf1: "wf_image G1"
    using G1(2) by (simp_all add: out_ok_def)
  from flipVertical_spec [OF wf1] obtain G2 where
    G2: "flipVertical G1 = Inr G2" "out_ok ?W ?H ?C G2"
    "\<And>y x c. 0 \<le> y \<Longrightarrow> y < ?H \<Longrightarrow> 0 \<le> x \<Longrightarrow> x < ?W \<Longrightarrow> 0 \<le> c \<Longrightarrow> c < ?C
        \<Longrightarrow> sample G2 (?H - 1 - y) x c = sample G1 y x c"
    unfolding d1 by blast
  have "G2 = G\<lparr>maxVal := 255\<rparr>"
  proof (rule image_eqI)
    show "wf_image G2" using G2(2) by (simp add: out_ok_def)
    show "wf_image (G\<lparr>maxVal := 255\<rparr>)" using wf by (simp add: wf_image_def)
    show "width G2 = width (G\<lparr>maxVal := 255\<rparr>)" "height G2 = height (G\<lparr>maxVal := 255\<rparr>)"
      "channels G2 = channels (G\<lparr>maxVal := 255\<rparr>)" "maxVal G2 = maxVal (G\<lparr>maxVal := 255\<rparr>)"
      using G2(2) by (simp_all add: out_ok_def)
    fix y x c
    assume a: "0 \<le> y" "y < height G2" "0 \<le> x" "x < width G2" "0 \<le> c" "c < channels G2"
    then have b: "y < ?H" "x < ?W" "c < ?C" using G2(2) by (simp_all add: out_ok_def)
    have y': "0 \<le> ?H - 1 - y" "?H - 1 - y < ?H" using a(1) b(1) by simp_all
    have "sample G2 (?H - 1 - (?H - 1 - y)) x c = sample G1 (?H - 1 - y) x c"
      by (rule G2(3) [OF y' a(3) b(2) a(5) b(3)])
    also have "\<dots> = sample G y x c" by (rule G1(3) [OF a(1) b(1) a(3) b(2) a(5) b(3)])
    finally show "sample G2 y x c = sample (G\<lparr>maxVal := 255\<rparr>) y x c" by (simp add: sample_def)
  qed
  then show ?thesis using G1(1) G2(1) by simp
qed

lemma wrap_int_id: "- (2 ^ 31) \<le> x \<Longrightarrow> x < 2 ^ 31 \<Longrightarrow> wrap_int x = x"
  by (simp add: wrap_int_def)

lemma adjustBrightness_zero:
  assumes wf: "wf_image G" and rg: "in_range G"
  shows "adjustBrightness G 0 = Inr (G\<lparr>maxVal := 255\<rparr>)"
proof -
  let ?W = "width G" and ?H = "height G" and ?C = "channels G"
  from adjustBrightness_spec [OF wf, of 0] obtain G1 where
    G1: "adjustBrightness G 0 = Inr G1" "out_ok ?W ?H ?C G1"
    "\<And>y x c. 0 \<le> y \<Longrightarrow> y < ?H \<Longrightarrow> 0 \<le> x \<Longrightarrow> x < ?W \<Longrightarrow> 0 \<le> c \<Longrightarrow> c < ?C
        \<Longrightarrow> sample G1 y x c = max 0 (min 255 (wrap_int (sample G y x c + 0)))"
    by blast
  have "G1 = G\<lparr>maxVal := 255\<rparr>"
  proof (rule image_eqI)
    show "wf_image G1" using G1(2) by (simp add: out_ok_def)
    show "wf_image (G\<lparr>maxVal := 255\<rparr>)" using wf by (simp add: wf_image_def)
    show "width G1 = width (G\<lparr>maxVal := 255\<rparr>)" "height G1 = height (G\<lparr>maxVal := 255\<rparr>)"
      "channels G1 = channels (G\<lparr>maxVal := 255\<rparr>)" "maxVal G1 = maxVal (G\<lparr>maxVal := 255\<rparr>)"
      using G1(2) by (simp_all add: out_ok_def)
    fix y x c
    assume a: "0 \<le> y" "y < height G1" "0 \<le> x" "x < width G1" "0 \<le> c" "c < channels G1"
    then have b: "y < ?H" "x < ?W" "c < ?C" using G1(2) by (simp_all add: out_ok_def)
    from in_range_sample [OF wf rg a(1) b(1) a(3) b(2) a(5) b(3)]
    have r: "0 \<le> sample G y x c" "sample G y x c \<le> 255" by simp_all
    then have "wrap_int (sample G y x c) = sample G y x c" by (intro wrap_int_id) simp_all
    then have "sample G1 y x c = sample G y x c"
      using G1(3) [OF a(1) b(1) a(3) b(2) a(5) b(3)] r by simp
    then show "sample G1 y x c = sample (G\<lparr>maxVal := 255\<rparr>) y x c" by (simp add: sample_def)
  qed
  then show ?thesis using G1(1) by simp
qed

lemma adjustBrightness_range:
  assumes wf: "wf_image G"
  shows "\<exists>out. adjustBrightness G v = Inr out \<and> wf_image out \<and> in_range out"
proof -
  let ?W = "width G" and ?H = "height G" and ?C = "channels G"
  from adjustBrightness_spec [OF wf, of v] obtain G1 where
    G1: "adjustBrightness G v = Inr G1" "out_ok ?W ?H ?C G1"
    "\<And>y x c. 0 \<le> y \<Longrightarrow> y < ?H \<Longrightarrow> 0 \<le> x \<Longrightarrow> x < ?W \<Longrightarrow> 0 \<le> c \<Longrightarrow> c < ?C
        \<Longrightarrow> sample G1 y x c = max 0 (min 255 (wrap_int (sample G y x c + v)))"
    by blast
  have w1: "wf_image G1" and d: "height G1 = ?H" "width G1 = ?W" "channels G1 = ?C"
    using G1(2) by (simp_all add: out_ok_def)
  have "in_range G1"
  proof (rule in_rangeI [OF w1])
    fix y x c
    assume "0 \<le> y" "y < height G1" "0 \<le> x" "x < width G1" "0 \<le> c" "c < channels G1"
    then have "sample G1 y x c = max 0 (min 255 (wrap_int (sample G y x c + v)))"
      using G1(3) d by simp
    then show "0 \<le> sample G1 y x c \<and> sample G1 y x c \<le> 255" by simp
  qed
  with G1(1) w1 show ?thesis by blast
qed

section \<open>Rounding\<close>

lemma bitlen_powi_bounds:
  assumes "0 < n"
  shows "(2::rat) powi (bitlen n - 1) \<le> of_int n" and "(of_int n :: rat) < 2 powi (bitlen n)"
proof -
  from assms have b1: "1 \<le> bitlen n" by (auto simp: bitlen_alt_def)
  from bitlen_bounds [OF assms]
  have lo: "2 ^ nat (bitlen n - 1) \<le> n" and hi: "n < 2 ^ nat (bitlen n)" by auto
  have "(2::rat) powi (bitlen n - 1) = of_int (2 ^ nat (bitlen n - 1))"
    using b1 by (simp add: power_int_def)
  also have "\<dots> \<le> of_int n" using lo by (simp only: of_int_le_iff)
  finally show "(2::rat) powi (bitlen n - 1) \<le> of_int n" .
  have "(of_int n :: rat) < of_int (2 ^ nat (bitlen n))" using hi by (simp only: of_int_less_iff)
  also have "\<dots> = 2 powi (bitlen n)" using b1 by (simp add: power_int_def)
  finally show "(of_int n :: rat) < 2 powi (bitlen n)" .
qed

lemma ilog2_bounds:
  assumes "0 < q"
  shows "2 powi (ilog2 q) \<le> q" and "q < 2 powi (ilog2 q + 1)"
proof -
  obtain n d where qd: "quotient_of q = (n, d)" by (cases "quotient_of q")
  then have q: "q = of_int n / of_int d" and d: "0 < d"
    by (auto dest: quotient_of_div quotient_of_denom_pos)
  from assms q d have n: "0 < n" by (simp add: zero_less_divide_iff)
  define k where "k = bitlen n - bitlen d"
  have il: "ilog2 q = (if 2 powi k \<le> q then k else k - 1)"
    by (simp add: ilog2_def qd k_def Let_def)
  have dpos: "(0::rat) < of_int d" using d by simp
  have lower: "(2::rat) powi (k - 1) \<le> q"
  proof -
    have "(2::rat) powi (k - 1) = 2 powi (bitlen n - 1) / 2 powi (bitlen d)"
      by (simp add: k_def power_int_diff)
    also have "\<dots> \<le> of_int n / 2 powi (bitlen d)"
      using bitlen_powi_bounds(1) [OF n] by (simp add: divide_right_mono)
    also have "\<dots> \<le> of_int n / of_int d"
      using bitlen_powi_bounds(2) [OF d] n dpos by (simp add: frac_le)
    finally show ?thesis by (simp add: q)
  qed
  have upper: "q < (2::rat) powi (k + 1)"
  proof -
    have "q = of_int n / of_int d" by (rule q)
    also have "\<dots> < 2 powi (bitlen n) / of_int d"
      using bitlen_powi_bounds(2) [OF n] dpos by (simp add: divide_strict_right_mono)
    also have "\<dots> \<le> 2 powi (bitlen n) / 2 powi (bitlen d - 1)"
      using bitlen_powi_bounds(1) [OF d] dpos by (intro divide_left_mono) (auto intro!: mult_pos_pos)
    also have "\<dots> = 2 powi (k + 1)"
    proof -
      have e: "k + 1 = bitlen n - (bitlen d - 1)" by (simp add: k_def)
      have "(2::rat) powi (bitlen n - (bitlen d - 1)) = 2 powi (bitlen n) / 2 powi (bitlen d - 1)"
        by (rule power_int_diff) simp
      then show ?thesis by (simp only: e)
    qed
    finally show ?thesis .
  qed
  show "2 powi (ilog2 q) \<le> q" using lower by (simp add: il)
  show "q < 2 powi (ilog2 q + 1)" using upper by (auto simp: il not_le)
qed

lemma ilog2_unique:
  assumes "0 < q" "2 powi e \<le> q" "q < 2 powi (e + 1)"
  shows "ilog2 q = e"
proof -
  have "(2::rat) powi (ilog2 q) < 2 powi (e + 1)"
    using ilog2_bounds(1) [OF assms(1)] assms(3) by simp
  then have a: "ilog2 q < e + 1"
    by (metis power_int_increasing not_less one_le_numeral)
  have "(2::rat) powi e < 2 powi (ilog2 q + 1)"
    using ilog2_bounds(2) [OF assms(1)] assms(2) by simp
  then have b: "e < ilog2 q + 1"
    by (metis power_int_increasing not_less one_le_numeral)
  from a b show ?thesis by simp
qed

lemma rne_error: "\<bar>of_int (rne x) - x\<bar> \<le> 1 / 2"
proof -
  have "of_int \<lfloor>x\<rfloor> \<le> x" "x < of_int \<lfloor>x\<rfloor> + 1" by linarith+
  then show ?thesis by (auto simp: rne_def Let_def)
qed

lemma rne_nonneg: "0 \<le> x \<Longrightarrow> 0 \<le> rne x"
  by (auto simp: rne_def Let_def)

lemma rne_of_int [simp]: "rne (of_int n) = n"
  by (simp add: rne_def)

lemma round_to_eval:
  assumes "q \<noteq> 0" "2 powi e \<le> \<bar>q\<bar>" "\<bar>q\<bar> < 2 powi (e + 1)" "emin fmt \<le> e"
    and "\<bar>of_int (rne (q / 2 powi (e - (int (prec fmt) - 1)))) * 2 powi (e - (int (prec fmt) - 1))\<bar> \<le> largest fmt"
  shows "round_to fmt q = Fin (of_int (rne (q / 2 powi (e - (int (prec fmt) - 1)))) * 2 powi (e - (int (prec fmt) - 1)))"
proof -
  have "ilog2 \<bar>q\<bar> = e" using assms(1-3) by (intro ilog2_unique) auto
  then have "max (ilog2 \<bar>q\<bar>) (emin fmt) = e" using assms(4) by simp
  then show ?thesis using assms(1,5) by (simp add: round_to_def Let_def not_less)
qed

lemma floor_rat_numeral: "\<lfloor>numeral a / numeral b :: rat\<rfloor> = numeral a div numeral b"
  by (metis floor_divide_of_int_eq of_int_numeral)

lemma floor_rat_neg_numeral: "\<lfloor>- (numeral a / numeral b :: rat)\<rfloor> = - numeral a div numeral b"
  by (metis floor_divide_of_int_eq minus_divide_left of_int_minus of_int_numeral)

lemmas rne_eval = rne_def Let_def floor_rat_numeral floor_rat_neg_numeral

lemma trunc_range: "0 \<le> q \<Longrightarrow> q < 256 \<Longrightarrow> 0 \<le> trunc_to_zero q \<and> trunc_to_zero q \<le> 255"
proof -
  assume a: "0 \<le> q" "q < 256"
  have "0 \<le> \<lfloor>q\<rfloor>" using a(1) by simp
  moreover have "\<lfloor>q\<rfloor> < 256" using a(2) by (simp add: floor_less_iff)
  ultimately show ?thesis using a(1) by (simp add: trunc_to_zero_def)
qed

lemma fp_to_int_range:
  assumes "0 \<le> q" "q < 256"
  shows "\<exists>r. fp_to_int (Fin q) = Inr r \<and> 0 \<le> r \<and> r \<le> 255"
  using trunc_range [OF assms] by (simp add: INT_MIN_def INT_MAX_def)

lemma clamp_finite: "\<exists>q. std_max (Fin 0) (std_min (Fin 255) a) = Fin q \<and> 0 \<le> q \<and> q \<le> 255"
  by (cases a) (auto simp: std_max_def std_min_def)

lemma contrast_sample_range: "\<exists>r. contrast_sample f v = Inr r \<and> 0 \<le> r \<and> r \<le> 255"
proof -
  obtain q where q: "std_max (Fin 0) (std_min (Fin 255)
       (fp_add binary32 (fp_mul binary32 f (fp_sub binary32 (fp_of_int binary32 v) (Fin 128)))
          (Fin 128))) = Fin q" "0 \<le> q" "q \<le> 255"
    using clamp_finite by blast
  from fp_to_int_range [of q] q(2,3) show ?thesis by (simp add: contrast_sample_def q(1))
qed

lemma round64_near:
  assumes "0 \<le> q" "q \<le> 1024"
  shows "\<exists>r. round_to binary64 q = Fin r \<and> 0 \<le> r \<and> r \<le> q + 1 / 2 ^ 40"
proof (cases "q = 0")
  case True
  then show ?thesis by (simp add: round_to_def)
next
  case False
  with assms have qpos: "0 < q" by simp
  define e where "e = max (ilog2 \<bar>q\<bar>) (emin binary64)"
  define ulp :: rat where "ulp = 2 powi (e - (int (prec binary64) - 1))"
  define r where "r = of_int (rne (q / ulp)) * ulp"
  have il: "ilog2 \<bar>q\<bar> \<le> 10"
  proof (rule ccontr)
    assume "\<not> ilog2 \<bar>q\<bar> \<le> 10"
    then have "11 \<le> ilog2 \<bar>q\<bar>" by simp
    then have "(2::rat) powi 11 \<le> 2 powi (ilog2 \<bar>q\<bar>)" by (intro power_int_increasing) simp_all
    also have "\<dots> \<le> \<bar>q\<bar>" using ilog2_bounds(1) [of "\<bar>q\<bar>"] qpos by simp
    finally show False using assms by simp
  qed
  then have e10: "e \<le> 10" by (simp add: e_def binary64_def)
  have ulp_pos: "0 < ulp" by (simp add: ulp_def)
  have "ulp \<le> 2 powi (- 42)"
    unfolding ulp_def using e10 by (intro power_int_increasing) (simp_all add: binary64_def)
  then have ulp_le: "ulp \<le> 1 / 2 ^ 42" by (simp add: power_int_minus_divide)
  have "\<bar>of_int (rne (q / ulp)) - q / ulp\<bar> \<le> 1 / 2" by (rule rne_error)
  then have "\<bar>of_int (rne (q / ulp)) - q / ulp\<bar> * ulp \<le> 1 / 2 * ulp"
    using ulp_pos by (intro mult_right_mono) simp_all
  moreover have "\<bar>of_int (rne (q / ulp)) - q / ulp\<bar> * ulp = \<bar>r - q\<bar>"
  proof -
    have "(of_int (rne (q / ulp)) - q / ulp) * ulp = r - q"
      using ulp_pos by (simp add: r_def left_diff_distrib)
    then have "\<bar>r - q\<bar> = \<bar>of_int (rne (q / ulp)) - q / ulp\<bar> * \<bar>ulp\<bar>"
      by (simp only: abs_mult [symmetric])
    then show ?thesis using ulp_pos by simp
  qed
  ultimately have err: "\<bar>r - q\<bar> \<le> 1 / 2 ^ 43" using ulp_le by simp
  have "0 \<le> rne (q / ulp)" using qpos ulp_pos by (intro rne_nonneg) simp
  then have r0: "0 \<le> r" using ulp_pos by (simp add: r_def)
  have "r - q \<le> 1 / 2 ^ 43" using err by (simp only: abs_le_iff)
  moreover have "(1::rat) / 2 ^ 43 \<le> 1 / 2 ^ 40" by simp
  ultimately have rle: "r \<le> q + 1 / 2 ^ 40" by linarith
  have "r \<le> 1025" using rle assms by simp
  moreover have "1025 \<le> largest binary64" by (simp add: largest_def binary64_def)
  ultimately have "\<not> largest binary64 < \<bar>r\<bar>" using r0 by simp
  then have "round_to binary64 q = Fin r"
    using False by (simp add: round_to_def Let_def e_def [symmetric] ulp_def [symmetric] r_def [symmetric])
  with r0 rle show ?thesis by blast
qed

lemma mul_near:
  assumes "0 \<le> a" "a \<le> A" "0 \<le> r" "r \<le> B" "A * B \<le> 1024"
  shows "\<exists>p. fp_mul binary64 (Fin a) (Fin r) = Fin p \<and> 0 \<le> p \<and> p \<le> A * B + 1 / 2 ^ 40"
proof -
  have le: "a * r \<le> A * B" using assms(1-4) by (intro mult_mono) simp_all
  have "0 \<le> a * r" using assms(1,3) by simp
  from round64_near [OF this] le assms(5)
  obtain p where "round_to binary64 (a * r) = Fin p" "0 \<le> p" "p \<le> a * r + 1 / 2 ^ 40"
    by auto
  with le show ?thesis by (intro exI [of _ p]) simp
qed

lemma add_near:
  assumes "0 \<le> x" "x \<le> X" "0 \<le> y" "y \<le> Y" "X + Y \<le> 1024"
  shows "\<exists>s. fp_add binary64 (Fin x) (Fin y) = Fin s \<and> 0 \<le> s \<and> s \<le> X + Y + 1 / 2 ^ 40"
proof -
  have le: "x + y \<le> X + Y" using assms(2,4) by simp
  have "0 \<le> x + y" using assms(1,3) by simp
  from round64_near [OF this] le assms(5)
  obtain s where "round_to binary64 (x + y) = Fin s" "0 \<le> s" "s \<le> x + y + 1 / 2 ^ 40"
    by auto
  with le show ?thesis by (intro exI [of _ s]) simp
qed

lemma int_near:
  assumes "0 \<le> n" "n \<le> 255"
  shows "\<exists>r. fp_of_int binary64 n = Fin r \<and> 0 \<le> r \<and> r \<le> 255 + 1 / 2 ^ 40"
proof -
  have "(0::rat) \<le> of_int n" "(of_int n :: rat) \<le> 255" using assms by simp_all
  from round64_near [OF this(1)] this(2)
  obtain r where "round_to binary64 (of_int n) = Fin r" "0 \<le> r" "r \<le> of_int n + 1 / 2 ^ 40"
    by auto
  with \<open>(of_int n :: rat) \<le> 255\<close> show ?thesis
    by (intro exI [of _ r]) (simp add: fp_of_int_def)
qed

lemma gray_sample_range:
  assumes "0 \<le> R" "R \<le> 255" "0 \<le> G" "G \<le> 255" "0 \<le> B" "B \<le> 255"
  shows "\<exists>g. gray_sample R G B = Inr g \<and> 0 \<le> g \<and> g \<le> 255"
proof -
  let ?e = "1 / 2 ^ 40 :: rat"
  let ?V = "255 + ?e"
  obtain a1 where a1: "round_to binary64 (299 / 1000) = Fin a1" "0 \<le> a1" "a1 \<le> 299 / 1000 + ?e"
    using round64_near [of "299 / 1000"] by auto
  obtain a2 where a2: "round_to binary64 (587 / 1000) = Fin a2" "0 \<le> a2" "a2 \<le> 587 / 1000 + ?e"
    using round64_near [of "587 / 1000"] by auto
  obtain a3 where a3: "round_to binary64 (114 / 1000) = Fin a3" "0 \<le> a3" "a3 \<le> 114 / 1000 + ?e"
    using round64_near [of "114 / 1000"] by auto
  obtain r1 where r1: "fp_of_int binary64 R = Fin r1" "0 \<le> r1" "r1 \<le> ?V"
    using int_near [OF assms(1,2)] by auto
  obtain r2 where r2: "fp_of_int binary64 G = Fin r2" "0 \<le> r2" "r2 \<le> ?V"
    using int_near [OF assms(3,4)] by auto
  obtain r3 where r3: "fp_of_int binary64 B = Fin r3" "0 \<le> r3" "r3 \<le> ?V"
    using int_near [OF assms(5,6)] by auto
  obtain p1 where p1: "fp_mul binary64 (Fin a1) (Fin r1) = Fin p1" "0 \<le> p1"
    "p1 \<le> (299 / 1000 + ?e) * ?V + ?e"
    using mul_near [OF a1(2,3) r1(2,3)] by auto
  obtain p2 where p2: "fp_mul binary64 (Fin a2) (Fin r2) = Fin p2" "0 \<le> p2"
    "p2 \<le> (587 / 1000 + ?e) * ?V + ?e"
    using mul_near [OF a2(2,3) r2(2,3)] by auto
  obtain p3 where p3: "fp_mul binary64 (Fin a3) (Fin r3) = Fin p3" "0 \<le> p3"
    "p3 \<le> (114 / 1000 + ?e) * ?V + ?e"
    using mul_near [OF a3(2,3) r3(2,3)] by auto
  obtain s1 where s1: "fp_add binary64 (Fin p1) (Fin p2) = Fin s1" "0 \<le> s1"
    "s1 \<le> ((299 / 1000 + ?e) * ?V + ?e) + ((587 / 1000 + ?e) * ?V + ?e) + ?e"
    using add_near [OF p1(2,3) p2(2,3)] by auto
  obtain s2 where s2: "fp_add binary64 (Fin s1) (Fin p3) = Fin s2" "0 \<le> s2"
    "s2 \<le> (((299 / 1000 + ?e) * ?V + ?e) + ((587 / 1000 + ?e) * ?V + ?e) + ?e)
            + ((114 / 1000 + ?e) * ?V + ?e) + ?e"
    using add_near [OF s1(2,3) p3(2,3)] by auto
  have "s2 < 256" using s2(3) by simp
  have "gray_sample R G B = fp_to_int (Fin s2)"
    by (simp only: gray_sample_def a1(1) a2(1) a3(1) r1(1) r2(1) r3(1) p1(1) p2(1) s1(1) p3(1) s2(1))
  with fp_to_int_range [OF s2(2) \<open>s2 < 256\<close>] show ?thesis by simp
qed

lemma round_to_zero [simp]: "round_to fmt 0 = Fin 0"
  by (simp add: round_to_def)

lemma lit_0_299: "round_to binary64 (299 / 1000) = Fin (5386305154335113 / 18014398509481984)"
proof -
  have "round_to binary64 (299 / 1000) =
      Fin (of_int (rne ((299 / 1000) / 2 powi ((- 2) - (int (prec binary64) - 1)))) * 2 powi ((- 2) - (int (prec binary64) - 1)))"
    by (rule round_to_eval) (simp_all add: binary64_def largest_def rne_eval)
  then show ?thesis by (simp add: binary64_def rne_eval)
qed

lemma lit_0_587: "round_to binary64 (587 / 1000) = Fin (2643612981266481 / 4503599627370496)"
proof -
  have "round_to binary64 (587 / 1000) =
      Fin (of_int (rne ((587 / 1000) / 2 powi ((- 1) - (int (prec binary64) - 1)))) * 2 powi ((- 1) - (int (prec binary64) - 1)))"
    by (rule round_to_eval) (simp_all add: binary64_def largest_def rne_eval)
  then show ?thesis by (simp add: binary64_def rne_eval)
qed

lemma lit_0_114: "round_to binary64 (114 / 1000) = Fin (8214565720323785 / 72057594037927936)"
proof -
  have "round_to binary64 (114 / 1000) =
      Fin (of_int (rne ((114 / 1000) / 2 powi ((- 4) - (int (prec binary64) - 1)))) * 2 powi ((- 4) - (int (prec binary64) - 1)))"
    by (rule round_to_eval) (simp_all add: binary64_def largest_def rne_eval)
  then show ?thesis by (simp add: binary64_def rne_eval)
qed

lemma double_255: "round_to binary64 (255) = Fin (255)"
proof -
  have "round_to binary64 (255) =
      Fin (of_int (rne ((255) / 2 powi (7 - (int (prec binary64) - 1)))) * 2 powi (7 - (int (prec binary64) - 1)))"
    by (rule round_to_eval) (simp_all add: binary64_def largest_def rne_eval)
  then show ?thesis by (simp add: binary64_def rne_eval)
qed

lemma red_term: "round_to binary64 (5386305154335113 / 18014398509481984 * 255) = Fin (5365264899825991 / 70368744177664)"
proof -
  have "round_to binary64 (5386305154335113 / 18014398509481984 * 255) =
      Fin (of_int (rne ((5386305154335113 / 18014398509481984 * 255) / 2 powi (6 - (int (prec binary64) - 1)))) * 2 powi (6 - (int (prec binary64) - 1)))"
    by (rule round_to_eval) (simp_all add: binary64_def largest_def rne_eval)
  then show ?thesis by (simp add: binary64_def rne_eval)
qed

lemma green_term: "round_to binary64 (2643612981266481 / 4503599627370496 * 255) = Fin (2633286368058409 / 17592186044416)"
proof -
  have "round_to binary64 (2643612981266481 / 4503599627370496 * 255) =
      Fin (of_int (rne ((2643612981266481 / 4503599627370496 * 255) / 2 powi (7 - (int (prec binary64) - 1)))) * 2 powi (7 - (int (prec binary64) - 1)))"
    by (rule round_to_eval) (simp_all add: binary64_def largest_def rne_eval)
  then show ?thesis by (simp add: binary64_def rne_eval)
qed

lemma blue_term: "round_to binary64 (8214565720323785 / 72057594037927936 * 255) = Fin (4091238786489385 / 140737488355328)"
proof -
  have "round_to binary64 (8214565720323785 / 72057594037927936 * 255) =
      Fin (of_int (rne ((8214565720323785 / 72057594037927936 * 255) / 2 powi (4 - (int (prec binary64) - 1)))) * 2 powi (4 - (int (prec binary64) - 1)))"
    by (rule round_to_eval) (simp_all add: binary64_def largest_def rne_eval)
  then show ?thesis by (simp add: binary64_def rne_eval)
qed

lemma red_term_exact: "round_to binary64 (5365264899825991 / 70368744177664) = Fin (5365264899825991 / 70368744177664)"
proof -
  have "round_to binary64 (5365264899825991 / 70368744177664) =
      Fin (of_int (rne ((5365264899825991 / 70368744177664) / 2 powi (6 - (int (prec binary64) - 1)))) * 2 powi (6 - (int (prec binary64) - 1)))"
    by (rule round_to_eval) (simp_all add: binary64_def largest_def rne_eval)
  then show ?thesis by (simp add: binary64_def rne_eval)
qed

lemma green_term_exact: "round_to binary64 (2633286368058409 / 17592186044416) = Fin (2633286368058409 / 17592186044416)"
proof -
  have "round_to binary64 (2633286368058409 / 17592186044416) =
      Fin (of_int (rne ((2633286368058409 / 17592186044416) / 2 powi (7 - (int (prec binary64) - 1)))) * 2 powi (7 - (int (prec binary64) - 1)))"
    by (rule round_to_eval) (simp_all add: binary64_def largest_def rne_eval)
  then show ?thesis by (simp add: binary64_def rne_eval)
qed

lemma blue_term_exact: "round_to binary64 (4091238786489385 / 140737488355328) = Fin (4091238786489385 / 140737488355328)"
proof -
  have "round_to binary64 (4091238786489385 / 140737488355328) =
      Fin (of_int (rne ((4091238786489385 / 140737488355328) / 2 powi (4 - (int (prec binary64) - 1)))) * 2 powi (4 - (int (prec binary64) - 1)))"
    by (rule round_to_eval) (simp_all add: binary64_def largest_def rne_eval)
  then show ?thesis by (simp add: binary64_def rne_eval)
qed

lemma red_green_sum: "round_to binary64 (5365264899825991 / 70368744177664 + 2633286368058409 / 17592186044416) = Fin (3974602593014907 / 17592186044416)"
proof -
  have "round_to binary64 (5365264899825991 / 70368744177664 + 2633286368058409 / 17592186044416) =
      Fin (of_int (rne ((5365264899825991 / 70368744177664 + 2633286368058409 / 17592186044416) / 2 powi (7 - (int (prec binary64) - 1)))) * 2 powi (7 - (int (prec binary64) - 1)))"
    by (rule round_to_eval) (simp_all add: binary64_def largest_def rne_eval)
  then show ?thesis by (simp add: binary64_def rne_eval)
qed

lemma white_sum: "round_to binary64 (3974602593014907 / 17592186044416 + 4091238786489385 / 140737488355328) = Fin (255)"
proof -
  have "round_to binary64 (3974602593014907 / 17592186044416 + 4091238786489385 / 140737488355328) =
      Fin (of_int (rne ((3974602593014907 / 17592186044416 + 4091238786489385 / 140737488355328) / 2 powi (7 - (int (prec binary64) - 1)))) * 2 powi (7 - (int (prec binary64) - 1)))"
    by (rule round_to_eval) (simp_all add: binary64_def largest_def rne_eval)
  then show ?thesis by (simp add: binary64_def rne_eval)
qed

lemmas gray_eval = gray_sample_def fp_of_int_def trunc_to_zero_def floor_rat_numeral
  INT_MIN_def INT_MAX_def

lemma gray_red: "gray_sample 255 0 0 = Inr 76"
  using lit_0_299 lit_0_587 lit_0_114 double_255 red_term red_term_exact
  by (simp add: gray_eval)

lemma gray_green: "gray_sample 0 255 0 = Inr 149"
  using lit_0_299 lit_0_587 lit_0_114 double_255 green_term green_term_exact
  by (simp add: gray_eval)

lemma gray_blue: "gray_sample 0 0 255 = Inr 29"
  using lit_0_299 lit_0_587 lit_0_114 double_255 blue_term blue_term_exact
  by (simp add: gray_eval)

lemma gray_white: "gray_sample 255 255 255 = Inr 255"
  using lit_0_299 lit_0_587 lit_0_114 double_255 red_term green_term blue_term
    red_green_sum white_sum
  by (simp add: gray_eval)

section \<open>Grayscale and contrast\<close>

lemma convertToGrayscale_alt:
  "convertToGrayscale input =
     bindE (Image_ctor (width input) (height input) 1) (\<lambda>output.
       for_loop 0 (height input) (\<lambda>y.
         for_loop 0 (width input) (\<lambda>x out.
           bindE (getPixel input y x 0) (\<lambda>R.
           bindE (getPixel input y x 1) (\<lambda>G.
           bindE (getPixel input y x 2) (\<lambda>B.
           bindE (gray_sample R G B) (\<lambda>gray. setPixel out y x 0 gray)))))) output)"
  by (simp only: convertToGrayscale_def gray_sample_def Let_def)

lemma adjustContrast_alt:
  "adjustContrast input factor =
     bindE (Image_ctor (width input) (height input) (channels input)) (\<lambda>output.
       for_loop 0 (height input) (\<lambda>x.
         for_loop 0 (width input) (\<lambda>y.
           for_loop 0 (channels input) (\<lambda>c out.
             bindE (getPixel input y x c) (\<lambda>v.
               bindE (contrast_sample factor v) (\<lambda>r. setPixel out y x c r))))) output)"
  by (simp only: adjustContrast_def contrast_sample_def Let_def)

lemma convertToGrayscale_spec:
  assumes wf: "wf_image G" and rg: "in_range G" and ch: "3 \<le> channels G"
  shows "\<exists>out. convertToGrayscale G = Inr out \<and> out_ok (width G) (height G) 1 out \<and>
           (\<forall>y x. 0 \<le> y \<and> y < height G \<and> 0 \<le> x \<and> x < width G
               \<longrightarrow> gray_sample (sample G y x 0) (sample G y x 1) (sample G y x 2)
                     = Inr (sample out y x 0) \<and>
                   0 \<le> sample out y x 0 \<and> sample out y x 0 \<le> 255)"
proof -
  let ?W = "width G" and ?H = "height G"
  let ?g = "\<lambda>y x. gray_sample (sample G y x 0) (sample G y x 1) (sample G y x 2)"
  from wf have nn: "0 \<le> ?W" "0 \<le> ?H" by (simp_all add: wf_image_def)
  from Image_ctor_ok [OF nn, of 1] obtain out0 where
    out0: "Image_ctor ?W ?H 1 = Inr out0" "out_ok ?W ?H 1 out0" by auto
  have gray: "\<exists>g. ?g y x = Inr g \<and> 0 \<le> g \<and> g \<le> 255"
    if "0 \<le> y" "y < ?H" "0 \<le> x" "x < ?W" for y x
    using in_range_sample [OF wf rg that, of 0] in_range_sample [OF wf rg that, of 1]
      in_range_sample [OF wf rg that, of 2] ch
    by (intro gray_sample_range) simp_all
  let ?P = "\<lambda>y x out. bindE (getPixel G y x 0) (\<lambda>R. bindE (getPixel G y x 1) (\<lambda>Gr.
      bindE (getPixel G y x 2) (\<lambda>B. bindE (gray_sample R Gr B) (\<lambda>gray. setPixel out y x 0 gray))))"
  have "\<exists>out'. for_loop 0 ?H (\<lambda>y. for_loop 0 ?W (\<lambda>x. ?P y x)) out0 = Inr out' \<and>
          out_ok ?W ?H 1 out' \<and>
          (\<forall>a b c. 0 \<le> a \<and> a < ?H \<and> 0 \<le> b \<and> b < ?W \<and> 0 \<le> c \<and> c < 1
              \<longrightarrow> sample out' a b c = projr (?g a b))"
  proof (rule pixel_loops [where P = ?P and dy = "\<lambda>y x. y" and dx = "\<lambda>y x. x"
        and F = "\<lambda>y x c. projr (?g y x)", OF out0(2) nn(2) nn(1)])
    fix a b out
    assume ab: "0 \<le> a" "a < ?H" "0 \<le> b" "b < ?W" and ok: "out_ok ?W ?H 1 out"
    from gray [OF ab] obtain g where g: "?g a b = Inr g" by blast
    from setPixel_ok [OF ok ab, of 0 g] obtain out' where
      out': "setPixel out a b 0 g = Inr out'" "out_ok ?W ?H 1 out'" "sample out' a b 0 = g"
      "\<And>y' x' c'. 0 \<le> y' \<Longrightarrow> 0 \<le> x' \<Longrightarrow> 0 \<le> c' \<Longrightarrow> (y', x', c') \<noteq> (a, b, 0)
          \<Longrightarrow> sample out' y' x' c' = sample out y' x' c'"
      by auto
    have "?P a b out = Inr out'"
      using ch g out'(1) by (simp add: getPixel_wf [OF wf ab])
    moreover have "\<forall>c. 0 \<le> c \<and> c < 1 \<longrightarrow> sample out' a b c = projr (?g a b)"
    proof (intro allI impI)
      fix c :: int assume "0 \<le> c \<and> c < 1"
      then have "c = 0" by simp
      then show "sample out' a b c = projr (?g a b)" using out'(3) g by simp
    qed
    moreover have "\<forall>y x c. 0 \<le> y \<and> 0 \<le> x \<and> 0 \<le> c \<and> (y, x) \<noteq> (a, b)
        \<longrightarrow> sample out' y x c = sample out y x c"
      using out'(4) by auto
    ultimately show "\<exists>out'. ?P a b out = Inr out' \<and> out_ok ?W ?H 1 out' \<and>
        (\<forall>c. 0 \<le> c \<and> c < 1 \<longrightarrow> sample out' a b c = projr (?g a b)) \<and>
        (\<forall>y x c. 0 \<le> y \<and> 0 \<le> x \<and> 0 \<le> c \<and> (y, x) \<noteq> (a, b)
            \<longrightarrow> sample out' y x c = sample out y x c)"
      using out'(2) by blast
  next
    fix a b :: int assume "0 \<le> a" "a < ?H" "0 \<le> b" "b < ?W"
    then show "0 \<le> a \<and> 0 \<le> b" by simp
  qed
  then obtain out where out: "for_loop 0 ?H (\<lambda>y. for_loop 0 ?W (\<lambda>x. ?P y x)) out0 = Inr out"
    "out_ok ?W ?H 1 out"
    "\<And>a b. 0 \<le> a \<Longrightarrow> a < ?H \<Longrightarrow> 0 \<le> b \<Longrightarrow> b < ?W \<Longrightarrow> sample out a b 0 = projr (?g a b)"
    by auto
  have "convertToGrayscale G = Inr out"
    using out0(1) out(1) by (simp add: convertToGrayscale_alt)
  moreover have "?g y x = Inr (sample out y x 0) \<and> 0 \<le> sample out y x 0 \<and> sample out y x 0 \<le> 255"
    if "0 \<le> y" "y < ?H" "0 \<le> x" "x < ?W" for y x
    using gray [OF that] out(3) [OF that] by auto
  ultimately show ?thesis using out(2) by blast
qed



lemma adjustContrast_square:
  assumes wf: "wf_image G" and sq: "width G = height G"
  shows "\<exists>out. adjustContrast G f = Inr out \<and> out_ok (width G) (height G) (channels G) out \<and>
           (\<forall>y x c. 0 \<le> y \<and> y < height G \<and> 0 \<le> x \<and> x < width G \<and> 0 \<le> c \<and> c < channels G
               \<longrightarrow> contrast_sample f (sample G y x c) = Inr (sample out y x c))"
proof -
  let ?W = "width G" and ?H = "height G" and ?C = "channels G"
  from wf have nn: "0 \<le> ?W" "0 \<le> ?H" "0 \<le> ?C" by (simp_all add: wf_image_def)
  from Image_ctor_ok [OF nn] obtain out0 where
    out0: "Image_ctor ?W ?H ?C = Inr out0" "out_ok ?W ?H ?C out0" by blast
  let ?B = "\<lambda>x y c out. bindE (getPixel G y x c) (\<lambda>v.
               bindE (contrast_sample f v) (\<lambda>r. setPixel out y x c r))"
  let ?F = "\<lambda>y x c. projr (contrast_sample f (sample G y x c))"
  have cs: "contrast_sample f v = Inr (projr (contrast_sample f v))" for v
    using contrast_sample_range [of f v] by auto
  have "\<exists>out'. for_loop 0 ?H (\<lambda>x. for_loop 0 ?W (\<lambda>y. for_loop 0 ?C (?B x y))) out0 = Inr out' \<and>
          out_ok ?W ?H ?C out' \<and>
          (\<forall>a b c. 0 \<le> a \<and> a < ?H \<and> 0 \<le> b \<and> b < ?W \<and> 0 \<le> c \<and> c < ?C
              \<longrightarrow> sample out' b a c = ?F b a c)"
  proof (rule pixel_loops [where P = "\<lambda>x y. for_loop 0 ?C (?B x y)" and dy = "\<lambda>x y. y"
        and dx = "\<lambda>x y. x" and F = ?F, OF out0(2) nn(2) nn(1)])
    fix a b out
    assume ab: "0 \<le> a" "a < ?H" "0 \<le> b" "b < ?W" and ok: "out_ok ?W ?H ?C out"
    have ba: "0 \<le> b" "b < ?H" "0 \<le> a" "a < ?W" using ab sq by simp_all
    show "\<exists>out'. for_loop 0 ?C (?B a b) out = Inr out' \<and> out_ok ?W ?H ?C out' \<and>
           (\<forall>c. 0 \<le> c \<and> c < ?C \<longrightarrow> sample out' b a c = ?F b a c) \<and>
           (\<forall>y' x' c. 0 \<le> y' \<and> 0 \<le> x' \<and> 0 \<le> c \<and> (y', x') \<noteq> (b, a)
               \<longrightarrow> sample out' y' x' c = sample out y' x' c)"
    proof (rule channel_loop [OF ok ba])
      fix c im assume c: "0 \<le> c" "c < ?C"
      from contrast_sample_range [of f "sample G b a c"]
      obtain r where "contrast_sample f (sample G b a c) = Inr r" by blast
      then show "?B a b c im = setPixel im b a c (?F b a c)"
        by (simp add: getPixel_wf [OF wf ba c])
    qed
  next
    fix a b :: int assume "0 \<le> a" "a < ?H" "0 \<le> b" "b < ?W"
    then show "0 \<le> b \<and> 0 \<le> a" by simp
  qed
  then obtain out where out:
    "for_loop 0 ?H (\<lambda>x. for_loop 0 ?W (\<lambda>y. for_loop 0 ?C (?B x y))) out0 = Inr out"
    "out_ok ?W ?H ?C out"
    "\<And>a b c. 0 \<le> a \<Longrightarrow> a < ?H \<Longrightarrow> 0 \<le> b \<Longrightarrow> b < ?W \<Longrightarrow> 0 \<le> c \<Longrightarrow> c < ?C
        \<Longrightarrow> sample out b a c = ?F b a c"
    by auto
  have "adjustContrast G f = Inr out" using out0(1) out(1) by (simp add: adjustContrast_alt)
  moreover have "contrast_sample f (sample G y x c) = Inr (sample out y x c)"
    if "0 \<le> y" "y < ?H" "0 \<le> x" "x < ?W" "0 \<le> c" "c < ?C" for y x c
  proof -
    have "sample out y x c = ?F y x c" using out(3) [of x y c] that sq by simp
    then show ?thesis using cs [of "sample G y x c"] by simp
  qed
  ultimately show ?thesis using out(2) by blast
qed

section \<open>The test image\<close>

lemma wf_createTestImage: "wf_image createTestImage"
  by (simp add: wf_image_def createTestImage_def)

lemma in_range_createTestImage: "in_range createTestImage"
  by (simp add: in_range_def createTestImage_def)

section \<open>Blur and rotation\<close>

text \<open>
  C10. \<open>applyBlur\<close> constructs its output and returns it untouched: for every
  well-formed input grid the result has the input's width, height and channel count,
  and every sample of it, border and interior alike, is 0.
\<close>

theorem applyBlur_all_zero:
  assumes "wf_image G"
  shows "\<exists>out. applyBlur G = Inr out \<and> wf_image out \<and>
           width out = width G \<and> height out = height G \<and> channels out = channels G \<and>
           data out = replicate (nat (height G)) (replicate (nat (width G))
                        (replicate (nat (channels G)) 0)) \<and>
           (\<forall>row \<in> set (data out). \<forall>p \<in> set row. \<forall>v \<in> set p. v = 0)"
proof -
  from assms have "0 \<le> width G" "0 \<le> height G" "0 \<le> channels G"
    by (simp_all add: wf_image_def)
  from Image_ctor_ok [OF this] show ?thesis
    by (auto simp: applyBlur_def Let_def out_ok_def)
qed

text \<open>C10 on the 4 by 4 test image: sixteen black pixels.\<close>

theorem applyBlur_all_zero_witness:
  "wf_image createTestImage \<and>
   applyBlur createTestImage =
     Inr \<lparr>width = 4, height = 4, maxVal = 255, channels = 3,
          data = [[[0, 0, 0], [0, 0, 0], [0, 0, 0], [0, 0, 0]],
                  [[0, 0, 0], [0, 0, 0], [0, 0, 0], [0, 0, 0]],
                  [[0, 0, 0], [0, 0, 0], [0, 0, 0], [0, 0, 0]],
                  [[0, 0, 0], [0, 0, 0], [0, 0, 0], [0, 0, 0]]]\<rparr>"
proof -
  have wf: "wf_image createTestImage" by (simp add: wf_image_def createTestImage_def)
  from applyBlur_all_zero [OF wf] obtain out where
    out: "applyBlur createTestImage = Inr out"
    "data out = replicate (nat (height createTestImage)) (replicate (nat (width createTestImage))
                        (replicate (nat (channels createTestImage)) 0))"
    by blast
  have "applyBlur createTestImage = Inr \<lparr>width = 4, height = 4, maxVal = 255, channels = 3,
          data = data out\<rparr>"
    using out(1) by (auto simp: applyBlur_def Image_ctor_def createTestImage_def)
  then show ?thesis using wf out(2)
    by (simp add: createTestImage_def numeral_eq_Suc)
qed

text \<open>
  C1 asks that every interior pixel of the blurred grid be the floor of the mean of
  its 3 by 3 neighbourhood. On the 3 by 3 grid whose nine samples are all 9 the one
  interior pixel would then be 9; \<open>applyBlur\<close> returns 0 there, as everywhere.
\<close>

theorem applyBlur_nines_centre_is_zero:
  "applyBlur nines3x3 =
     Inr \<lparr>width = 3, height = 3, maxVal = 255, channels = 1,
          data = [[[0], [0], [0]], [[0], [0], [0]], [[0], [0], [0]]]\<rparr>"
  by (simp add: applyBlur_def nines3x3_def Image_ctor_def numeral_eq_Suc)

text \<open>
  C2 asks that \<open>rotate90\<close> move the sample at \<open>(row, col)\<close> to \<open>(col, height - 1 - row)\<close>
  and that four applications give the grid back. \<open>rotate90\<close> swaps the two
  dimensions and leaves every sample of its fresh output at 0: the 2 wide, 1 high grid
  with samples 5 and 7 comes back, after one turn and after four, with both samples 0.
\<close>

theorem rotate90_returns_blank_grid:
  "rotate90 pair1x2 =
     Inr \<lparr>width = 1, height = 2, maxVal = 255, channels = 1, data = [[[0]], [[0]]]\<rparr> \<and>
   bindE (bindE (bindE (rotate90 pair1x2) rotate90) rotate90) rotate90 =
     Inr \<lparr>width = 2, height = 1, maxVal = 255, channels = 1, data = [[[0], [0]]]\<rparr>"
  by (simp add: rotate90_def pair1x2_def Image_ctor_def numeral_eq_Suc)

section \<open>Contrast\<close>

text \<open>
  The loops of \<open>adjustContrast\<close> bound \<open>x\<close> by the height and \<open>y\<close> by the width and
  then index row \<open>y\<close>, column \<open>x\<close>. On a square grid every pixel is visited, column by
  column; on any other grid with at least one sample the first index past the shorter
  side is read outside the buffer.
\<close>

text \<open>
  C3 asks that each of the seven transforms complete on every well-formed grid of at
  least one pixel, all element accesses in bounds. On the grid 2 wide and 1 high
  \<open>adjustContrast\<close>, whatever the factor, handles pixel \<open>(0, 0)\<close> and then reads
  \<open>input(1, 0, 0)\<close>: row 1 of a buffer of one row.
\<close>

theorem adjustContrast_leaves_wide_grid: "adjustContrast wide2x1 f = Inl OutOfBounds"
proof -
  let ?B = "\<lambda>x y c out. bindE (getPixel wide2x1 y x c) (\<lambda>v.
               bindE (contrast_sample f v) (\<lambda>r. setPixel out y x c r))"
  let ?out0 = "\<lparr>width = 2, height = 1, maxVal = 255, channels = 1, data = [[[0], [0]]]\<rparr>"
  have ctor: "Image_ctor 2 1 1 = Inr ?out0" by (simp add: Image_ctor_def numeral_eq_Suc)
  obtain r where r: "contrast_sample f 10 = Inr r" using contrast_sample_range by blast
  let ?out1 = "\<lparr>width = 2, height = 1, maxVal = 255, channels = 1, data = [[[r], [0]]]\<rparr>"
  have b00: "?B 0 0 0 ?out0 = Inr ?out1"
    by (simp add: getPixel_def setPixel_def wide2x1_def r)
  have c0: "for_loop 0 1 (?B 0 0) ?out0 = Inr ?out1"
    using for_loop_step [of 0 1 "?B 0 0" ?out0 ?out1] b00
    by (simp add: for_loop_done)
  have b10: "?B 0 1 0 ?out1 = Inl OutOfBounds"
    by (simp add: getPixel_def wide2x1_def)
  have c1: "for_loop 0 1 (?B 0 1) ?out1 = Inl OutOfBounds"
    by (rule for_loop_fail) (simp_all add: b10)
  have y1: "for_loop (0 + 1) 2 (\<lambda>y. for_loop 0 1 (?B 0 y)) ?out1 = Inl OutOfBounds"
    by (rule for_loop_fail) (simp_all add: c1)
  have y0: "for_loop 0 2 (\<lambda>y. for_loop 0 1 (?B 0 y)) ?out0 = Inl OutOfBounds"
    using for_loop_step [of 0 2 "\<lambda>y. for_loop 0 1 (?B 0 y)" ?out0 ?out1] c0 y1 by simp
  have "for_loop 0 1 (\<lambda>x. for_loop 0 2 (\<lambda>y. for_loop 0 1 (?B x y))) ?out0 = Inl OutOfBounds"
    by (rule for_loop_fail) (simp_all add: y0)
  then show ?thesis
    by (simp add: adjustContrast_alt ctor wide2x1_def)
qed

lemma adjustContrast_tall1x2: "adjustContrast tall1x2 f = Inl OutOfBounds"
proof -
  let ?B = "\<lambda>x y c out. bindE (getPixel tall1x2 y x c) (\<lambda>v.
               bindE (contrast_sample f v) (\<lambda>r. setPixel out y x c r))"
  let ?out0 = "\<lparr>width = 1, height = 2, maxVal = 255, channels = 1, data = [[[0]], [[0]]]\<rparr>"
  have ctor: "Image_ctor 1 2 1 = Inr ?out0" by (simp add: Image_ctor_def numeral_eq_Suc)
  obtain r where r: "contrast_sample f 10 = Inr r" using contrast_sample_range by blast
  let ?out1 = "\<lparr>width = 1, height = 2, maxVal = 255, channels = 1, data = [[[r]], [[0]]]\<rparr>"
  have b00: "?B 0 0 0 ?out0 = Inr ?out1"
    by (simp add: getPixel_def setPixel_def tall1x2_def r)
  have c0: "for_loop 0 1 (?B 0 0) ?out0 = Inr ?out1"
    using for_loop_step [of 0 1 "?B 0 0" ?out0 ?out1] b00
    by (simp add: for_loop_done)
  have x0: "for_loop 0 1 (\<lambda>y. for_loop 0 1 (?B 0 y)) ?out0 = Inr ?out1"
    using for_loop_step [of 0 1 "\<lambda>y. for_loop 0 1 (?B 0 y)" ?out0 ?out1] c0
    by (simp add: for_loop_done)
  have b10: "?B 1 0 0 ?out1 = Inl OutOfBounds"
    by (simp add: getPixel_def tall1x2_def)
  have c1: "for_loop 0 1 (?B 1 0) ?out1 = Inl OutOfBounds"
    by (rule for_loop_fail) (simp_all add: b10)
  have x1: "for_loop 0 1 (\<lambda>y. for_loop 0 1 (?B 1 y)) ?out1 = Inl OutOfBounds"
    by (rule for_loop_fail) (simp_all add: c1)
  have x1': "for_loop (0 + 1) 2 (\<lambda>x. for_loop 0 1 (\<lambda>y. for_loop 0 1 (?B x y))) ?out1 = Inl OutOfBounds"
    by (rule for_loop_fail) (simp_all add: x1)
  have "for_loop 0 2 (\<lambda>x. for_loop 0 1 (\<lambda>y. for_loop 0 1 (?B x y))) ?out0 = Inl OutOfBounds"
    using for_loop_step [of 0 2 "\<lambda>x. for_loop 0 1 (\<lambda>y. for_loop 0 1 (?B x y))" ?out0 ?out1] x0 x1'
    by simp
  then show ?thesis
    by (simp add: adjustContrast_alt ctor tall1x2_def)
qed

lemma round32_small_int:
  assumes "\<bar>n\<bar> \<le> 256"
  shows "round_to binary32 (of_int n) = Fin (of_int n)"
proof (cases "n = 0")
  case True
  then show ?thesis by simp
next
  case False
  define q :: rat where "q = of_int n"
  have q0: "q \<noteq> 0" using False by (simp add: q_def)
  have aq: "1 \<le> \<bar>q\<bar>" "\<bar>q\<bar> \<le> 256"
  proof -
    have "\<bar>q\<bar> = of_int \<bar>n\<bar>" by (simp add: q_def)
    moreover have "1 \<le> \<bar>n\<bar>" using False by simp
    ultimately show "1 \<le> \<bar>q\<bar>" by (metis of_int_1_le_iff)
    show "\<bar>q\<bar> \<le> 256" using assms \<open>\<bar>q\<bar> = of_int \<bar>n\<bar>\<close> by (metis of_int_le_iff of_int_numeral)
  qed
  define e where "e = ilog2 \<bar>q\<bar>"
  have pos: "0 < \<bar>q\<bar>" using q0 by simp
  have lo: "2 powi e \<le> \<bar>q\<bar>" and hi: "\<bar>q\<bar> < 2 powi (e + 1)"
    unfolding e_def using ilog2_bounds [OF pos] by simp_all
  have e8: "e \<le> 8"
  proof (rule ccontr)
    assume "\<not> e \<le> 8"
    then have "9 \<le> e" by simp
    then have "(2::rat) powi 9 \<le> 2 powi e" by (intro power_int_increasing) simp_all
    with lo aq(2) show False by simp
  qed
  have e0: "0 \<le> e"
  proof (rule ccontr)
    assume "\<not> 0 \<le> e"
    then have "e + 1 \<le> 0" by simp
    then have "(2::rat) powi (e + 1) \<le> 2 powi 0" by (intro power_int_increasing) simp_all
    with hi aq(1) show False by simp
  qed
  define k where "k = nat (23 - e)"
  have ek: "e - (int (prec binary32) - 1) = - int k"
    using e8 by (simp add: k_def binary32_def)
  have ulp: "(2::rat) powi (e - (int (prec binary32) - 1)) = 1 / 2 ^ k"
    unfolding ek by (simp add: power_int_minus_divide)
  have sc: "q / (1 / 2 ^ k) = of_int (n * 2 ^ k)" by (simp add: q_def)
  have r: "of_int (rne (q / (1 / 2 ^ k))) * (1 / 2 ^ k) = q"
    unfolding sc rne_of_int by (simp add: q_def)
  have "256 \<le> largest binary32" by (simp add: largest_def binary32_def)
  with aq(2) have big: "\<not> largest binary32 < \<bar>q\<bar>" by simp
  have mx: "max (ilog2 \<bar>q\<bar>) (emin binary32) = e" using e0 by (simp add: e_def binary32_def)
  have "round_to binary32 q = Fin q"
    unfolding round_to_def Let_def mx ulp r using q0 big by simp
  then show ?thesis by (simp add: q_def)
qed

lemma contrast_sample_unit:
  assumes "0 \<le> v" "v \<le> 255"
  shows "contrast_sample (Fin 1) v = Inr v"
proof -
  have a: "fp_of_int binary32 v = Fin (of_int v)"
    using assms by (simp add: fp_of_int_def round32_small_int)
  have r1: "round_to binary32 (of_int (v - 128)) = Fin (of_int (v - 128))"
    using assms by (intro round32_small_int) simp
  have r2: "round_to binary32 (of_int v) = Fin (of_int v)"
    using assms by (intro round32_small_int) simp
  have "fp_sub binary32 (Fin (of_int v)) (Fin 128) = round_to binary32 (of_int (v - 128))"
    by (simp add: fp_sub_def)
  then have b: "fp_sub binary32 (Fin (of_int v)) (Fin 128) = Fin (of_int (v - 128))"
    by (simp only: r1)
  have "fp_mul binary32 (Fin 1) (Fin (of_int (v - 128))) = round_to binary32 (of_int (v - 128))"
    by simp
  then have c: "fp_mul binary32 (Fin 1) (Fin (of_int (v - 128))) = Fin (of_int (v - 128))"
    by (simp only: r1)
  have "fp_add binary32 (Fin (of_int (v - 128))) (Fin 128) = round_to binary32 (of_int v)"
    by simp
  then have d: "fp_add binary32 (Fin (of_int (v - 128))) (Fin 128) = Fin (of_int v)"
    by (simp only: r2)
  have e: "std_max (Fin 0) (std_min (Fin 255) (Fin (of_int v))) = Fin (of_int v)"
    using assms by (simp add: std_max_def std_min_def)
  have "contrast_sample (Fin 1) v = fp_to_int (Fin (of_int v))"
    by (simp only: contrast_sample_def a b c d e)
  then show ?thesis using assms by (simp add: trunc_to_zero_def INT_MIN_def INT_MAX_def)
qed

text \<open>
  With factor 1.0 the stored value is the sample itself, so on a square grid the
  output repeats the input.
\<close>

lemma adjustContrast_unit_square:
  assumes wf: "wf_image G" and rg: "in_range G" and sq: "width G = height G"
  shows "adjustContrast G (Fin 1) = Inr (G\<lparr>maxVal := 255\<rparr>)"
proof -
  let ?W = "width G" and ?H = "height G" and ?C = "channels G"
  from adjustContrast_square [OF wf sq, of "Fin 1"] obtain G1 where
    G1: "adjustContrast G (Fin 1) = Inr G1" "out_ok ?W ?H ?C G1"
    "\<And>y x c. 0 \<le> y \<Longrightarrow> y < ?H \<Longrightarrow> 0 \<le> x \<Longrightarrow> x < ?W \<Longrightarrow> 0 \<le> c \<Longrightarrow> c < ?C
        \<Longrightarrow> contrast_sample (Fin 1) (sample G y x c) = Inr (sample G1 y x c)"
    by blast
  have "G1 = G\<lparr>maxVal := 255\<rparr>"
  proof (rule image_eqI)
    show "wf_image G1" using G1(2) by (simp add: out_ok_def)
    show "wf_image (G\<lparr>maxVal := 255\<rparr>)" using wf by (simp add: wf_image_def)
    show "width G1 = width (G\<lparr>maxVal := 255\<rparr>)" "height G1 = height (G\<lparr>maxVal := 255\<rparr>)"
      "channels G1 = channels (G\<lparr>maxVal := 255\<rparr>)" "maxVal G1 = maxVal (G\<lparr>maxVal := 255\<rparr>)"
      using G1(2) by (simp_all add: out_ok_def)
    fix y x c
    assume a: "0 \<le> y" "y < height G1" "0 \<le> x" "x < width G1" "0 \<le> c" "c < channels G1"
    then have b: "y < ?H" "x < ?W" "c < ?C" using G1(2) by (simp_all add: out_ok_def)
    from in_range_sample [OF wf rg a(1) b(1) a(3) b(2) a(5) b(3)]
    have "contrast_sample (Fin 1) (sample G y x c) = Inr (sample G y x c)"
      by (intro contrast_sample_unit) simp_all
    then have "sample G1 y x c = sample G y x c"
      using G1(3) [OF a(1) b(1) a(3) b(2) a(5) b(3)] by simp
    then show "sample G1 y x c = sample (G\<lparr>maxVal := 255\<rparr>) y x c" by (simp add: sample_def)
  qed
  then show ?thesis using G1(1) by simp
qed

text \<open>
  C5 asks that \<open>adjustContrast(G, 1.0)\<close> return a grid equal to \<open>G\<close> for every valid
  grid. On the grid 1 wide and 2 high, with samples 10 and 20, the second turn of the
  outer loop reads \<open>input(0, 1, 0)\<close>, column 1 of a row of one pixel, and no grid is
  returned.
\<close>

theorem adjustContrast_unit_factor_leaves_tall_grid:
  "adjustContrast tall1x2 (Fin 1) = Inl OutOfBounds"
  by (rule adjustContrast_tall1x2)

section \<open>Flips\<close>

text \<open>
  C6 as stated has both double flips return a grid equal to \<open>G\<close> for every valid
  grid. Every transform builds its output with the constructor, which stores 255 in
  \<open>maxVal\<close>, and none copies the input's \<open>maxVal\<close>: on the one-pixel grid whose
  \<open>maxVal\<close> is 100 neither double flip gives the grid back.
\<close>

theorem double_flip_resets_maxVal:
  "wf_image g100 \<and>
   bindE (flipHorizontal g100) flipHorizontal \<noteq> Inr g100 \<and>
   bindE (flipVertical g100) flipVertical \<noteq> Inr g100"
proof -
  have wf: "wf_image g100" by (simp add: wf_image_def g100_def)
  have "g100\<lparr>maxVal := 255\<rparr> \<noteq> g100" by (simp add: g100_def)
  then show ?thesis
    using wf flipHorizontal_twice [OF wf] flipVertical_twice [OF wf] by simp
qed

text \<open>
  C6, amended. For every well-formed grid \<open>G\<close>, flipping twice, horizontally or
  vertically, succeeds and returns \<open>G\<close> with \<open>maxVal\<close> set to 255: the width, the
  height, the channel count and every sample are those of \<open>G\<close>. The result is \<open>G\<close>
  itself where the \<open>maxVal\<close> of \<open>G\<close> is 255.
\<close>

theorem flips_are_involutions:
  assumes "wf_image G"
  shows "bindE (flipHorizontal G) flipHorizontal = Inr (G\<lparr>maxVal := 255\<rparr>) \<and>
         bindE (flipVertical G) flipVertical = Inr (G\<lparr>maxVal := 255\<rparr>) \<and>
         (maxVal G = 255 \<longrightarrow>
            bindE (flipHorizontal G) flipHorizontal = Inr G \<and>
            bindE (flipVertical G) flipVertical = Inr G)"
  using flipHorizontal_twice [OF assms] flipVertical_twice [OF assms] by auto

text \<open>C6, amended, on the 4 by 4 test image, whose \<open>maxVal\<close> is 255.\<close>

theorem flips_are_involutions_witness:
  "wf_image createTestImage \<and> maxVal createTestImage = 255 \<and>
   bindE (flipHorizontal createTestImage) flipHorizontal = Inr createTestImage \<and>
   bindE (flipVertical createTestImage) flipVertical = Inr createTestImage"
  using flips_are_involutions [OF wf_createTestImage] wf_createTestImage
  by (simp add: createTestImage_def)

section \<open>Brightness\<close>

text \<open>
  C7 as stated has \<open>adjustBrightness(G, 0)\<close> equal to \<open>G\<close> for every valid grid with
  samples in \<open>[0, 255]\<close>. On the one-pixel grid whose \<open>maxVal\<close> is 100 the result has
  \<open>maxVal\<close> 255 and is not that grid.
\<close>

theorem brightness_zero_resets_maxVal:
  "wf_image g100 \<and> in_range g100 \<and> adjustBrightness g100 0 \<noteq> Inr g100"
proof -
  have wf: "wf_image g100" by (simp add: wf_image_def g100_def)
  have rg: "in_range g100" by (simp add: in_range_def g100_def)
  have "g100\<lparr>maxVal := 255\<rparr> \<noteq> g100" by (simp add: g100_def)
  then show ?thesis using wf rg adjustBrightness_zero [OF wf rg] by simp
qed

text \<open>
  C7, amended. For every well-formed grid \<open>G\<close> with samples in \<open>[0, 255]\<close>,
  \<open>adjustBrightness(G, 0)\<close> returns \<open>G\<close> with \<open>maxVal\<close> set to 255, which is \<open>G\<close>
  itself where the \<open>maxVal\<close> of \<open>G\<close> is 255; and for every integer \<open>delta\<close>
  \<open>adjustBrightness(G, delta)\<close> returns a grid whose samples all lie in \<open>[0, 255]\<close>.
\<close>

theorem brightness_identity_and_range:
  assumes "wf_image G" "in_range G"
  shows "adjustBrightness G 0 = Inr (G\<lparr>maxVal := 255\<rparr>) \<and>
         (maxVal G = 255 \<longrightarrow> adjustBrightness G 0 = Inr G) \<and>
         (\<forall>delta. \<exists>out. adjustBrightness G delta = Inr out \<and> in_range out)"
proof -
  have "\<exists>out. adjustBrightness G delta = Inr out \<and> in_range out" for delta
    using adjustBrightness_range [OF assms(1), of delta] by blast
  then show ?thesis using adjustBrightness_zero [OF assms] by auto
qed

text \<open>C7, amended, on the 4 by 4 test image, with the driver's \<open>delta = 50\<close>.\<close>

theorem brightness_identity_and_range_witness:
  "wf_image createTestImage \<and> in_range createTestImage \<and> maxVal createTestImage = 255 \<and>
   adjustBrightness createTestImage 0 = Inr createTestImage \<and>
   (\<exists>out. adjustBrightness createTestImage 50 = Inr out \<and> in_range out)"
  using brightness_identity_and_range [OF wf_createTestImage in_range_createTestImage]
    wf_createTestImage in_range_createTestImage
  by (simp add: createTestImage_def)

section \<open>The range of the stored samples\<close>








section \<open>Grayscale of the test image\<close>

lemma list_of_length_1: "length xs = 1 \<Longrightarrow> xs = [xs ! 0]"
  by (cases xs) auto

lemma list_of_length_4: "length xs = 4 \<Longrightarrow> xs = [xs ! 0, xs ! 1, xs ! 2, xs ! 3]"
  by (auto simp: numeral_eq_Suc length_Suc_conv)

lemma grayscale_first_row:
  assumes wf: "wf_image G" and rg: "in_range G"
    and dims: "width G = 4" "height G = 4" "channels G = 3"
    and row: "data G ! 0 = [[255, 0, 0], [0, 255, 0], [0, 0, 255], [255, 255, 255]]"
  shows "\<exists>out. convertToGrayscale G = Inr out \<and> data out ! 0 = [[76], [149], [29], [255]]"
proof -
  have ch: "3 \<le> channels G" using dims by simp
  from convertToGrayscale_spec [OF wf rg ch] obtain out where
    out: "convertToGrayscale G = Inr out" "out_ok 4 4 1 out"
    "\<And>y x. 0 \<le> y \<Longrightarrow> y < 4 \<Longrightarrow> 0 \<le> x \<Longrightarrow> x < 4
        \<Longrightarrow> gray_sample (sample G y x 0) (sample G y x 1) (sample G y x 2)
            = Inr (sample out y x 0)"
    unfolding dims by blast
  have w1: "wf_image out" and d: "height out = 4" "width out = 4" "channels out = 1"
    using out(2) by (simp_all add: out_ok_def)
  have s0: "sample out 0 0 0 = 76"
    using out(3) [of 0 0] by (simp add: sample_def row gray_red)
  have s1: "sample out 0 1 0 = 149"
    using out(3) [of 0 1] by (simp add: sample_def row gray_green)
  have s2: "sample out 0 2 0 = 29"
    using out(3) [of 0 2] by (simp add: sample_def row gray_blue)
  have s3: "sample out 0 3 0 = 255"
    using out(3) [of 0 3] by (simp add: sample_def row gray_white)
  have len: "length (data out ! 0) = 4"
    using wf_image_row(2) [OF w1, of 0] d by simp
  have p: "length (data out ! 0 ! nat x) = 1" if "0 \<le> x" "x < 4" for x
    using wf_image_pixel(2) [OF w1, of 0 x] that d by simp
  have px: "data out ! 0 ! nat x = [sample out 0 x 0]" if "0 \<le> x" "x < 4" for x
    using list_of_length_1 [OF p [OF that]] by (simp add: sample_def)
  have "data out ! 0 = [data out ! 0 ! 0, data out ! 0 ! 1, data out ! 0 ! 2, data out ! 0 ! 3]"
    by (rule list_of_length_4 [OF len])
  also have "\<dots> = [[76], [149], [29], [255]]"
    using px [of 0] px [of 1] px [of 2] px [of 3] s0 s1 s2 s3 by simp
  finally show ?thesis using out(1) by blast
qed

text \<open>
  C4, amended. For every well-formed 4 by 4 RGB grid with samples in \<open>[0, 255]\<close> whose
  row 0 is red, green, blue, white, \<open>convertToGrayscale\<close> returns a grid whose row 0 is
  76, 149, 29, 255: each sample is \<open>0.299 * R + 0.587 * G + 0.114 * B\<close>, computed in
  double precision and truncated toward zero, and for pure green that is 149.685,
  truncated to 149.
\<close>

theorem grayscale_of_primaries:
  assumes "wf_image G" "in_range G" "width G = 4" "height G = 4" "channels G = 3"
    and "data G ! 0 = [[255, 0, 0], [0, 255, 0], [0, 0, 255], [255, 255, 255]]"
  shows "\<exists>out. convertToGrayscale G = Inr out \<and> data out ! 0 = [[76], [149], [29], [255]]"
  using assms by (rule grayscale_first_row)

text \<open>
C4, amended, on the image \<open>createTestImage\<close> builds.
\<close>

theorem grayscale_of_primaries_witness:
  "wf_image createTestImage \<and> in_range createTestImage \<and>
   width createTestImage = 4 \<and> height createTestImage = 4 \<and> channels createTestImage = 3 \<and>
   data createTestImage ! 0 = [[255, 0, 0], [0, 255, 0], [0, 0, 255], [255, 255, 255]] \<and>
   (\<exists>out. convertToGrayscale createTestImage = Inr out \<and>
      data out ! 0 = [[76], [149], [29], [255]])"
proof -
  have a: "width createTestImage = 4" "height createTestImage = 4" "channels createTestImage = 3"
    "data createTestImage ! 0 = [[255, 0, 0], [0, 255, 0], [0, 0, 255], [255, 255, 255]]"
    by (simp_all add: createTestImage_def)
  from grayscale_of_primaries [OF wf_createTestImage in_range_createTestImage a]
  show ?thesis using wf_createTestImage in_range_createTestImage a by blast
qed

text \<open>
  C4 as stated gives 150 for the green pixel. On the test image the conversion
  succeeds and its row 0 is not 76, 150, 29, 255.
\<close>

theorem grayscale_green_is_not_150:
  "\<not> isl (convertToGrayscale createTestImage) \<and>
   data (projr (convertToGrayscale createTestImage)) ! 0 \<noteq> [[76], [150], [29], [255]]"
proof -
  have a: "width createTestImage = 4" "height createTestImage = 4" "channels createTestImage = 3"
    "data createTestImage ! 0 = [[255, 0, 0], [0, 255, 0], [0, 0, 255], [255, 255, 255]]"
    by (simp_all add: createTestImage_def)
  from grayscale_first_row [OF wf_createTestImage in_range_createTestImage a]
  obtain out where "convertToGrayscale createTestImage = Inr out"
    "data out ! 0 = [[76], [149], [29], [255]]" by blast
  then show ?thesis by simp
qed

section \<open>Construction and failure\<close>

text \<open>
  C9 as stated has the construction of a grid of zero width or height fail. The
  constructor checks nothing: \<open>Image(0, 2, 3)\<close> is a grid of two empty rows.
\<close>

theorem Image_ctor_zero_width_is_no_error:
  "Image_ctor 0 2 3 =
     Inr \<lparr>width = 0, height = 2, maxVal = 255, channels = 3, data = [[], []]\<rparr>"
  by (simp add: Image_ctor_def numeral_eq_Suc)

text \<open>
  C9, amended. Constructing a grid with zero width or zero height (and no negative
  count) does not fail: it returns a well-formed grid without a single sample. The
  constructor fails only on a negative count, with the vector's length error. On every
  well-formed grid \<open>flipHorizontal\<close>, \<open>flipVertical\<close>, \<open>adjustBrightness\<close>, \<open>applyBlur\<close>
  and \<open>rotate90\<close> return a grid, and so does \<open>convertToGrayscale\<close> on three or more
  channels with samples in \<open>[0, 255]\<close>.
\<close>

theorem degenerate_grids_and_total_transforms:
  "(0 \<le> w \<and> 0 \<le> h \<and> 0 \<le> ch \<and> (w = 0 \<or> h = 0) \<longrightarrow>
      (\<exists>g. Image_ctor w h ch = Inr g \<and> wf_image g \<and> width g = w \<and> height g = h \<and>
            channels g = ch \<and> concat (concat (data g)) = [])) \<and>
   (w < 0 \<or> h < 0 \<or> ch < 0 \<longrightarrow> Image_ctor w h ch = Inl LengthError) \<and>
   (wf_image G \<longrightarrow>
      (\<exists>out. flipHorizontal G = Inr out) \<and> (\<exists>out. flipVertical G = Inr out) \<and>
      (\<forall>delta. \<exists>out. adjustBrightness G delta = Inr out) \<and>
      (\<exists>out. applyBlur G = Inr out) \<and> (\<exists>out. rotate90 G = Inr out) \<and>
      (in_range G \<and> 3 \<le> channels G \<longrightarrow> (\<exists>out. convertToGrayscale G = Inr out)))"
proof (intro conjI impI)
  assume a: "0 \<le> w \<and> 0 \<le> h \<and> 0 \<le> ch \<and> (w = 0 \<or> h = 0)"
  then have "concat (concat (replicate (nat h) (replicate (nat w) (replicate (nat ch) (0::int))))) = []"
    by auto
  with a show "\<exists>g. Image_ctor w h ch = Inr g \<and> wf_image g \<and> width g = w \<and> height g = h \<and>
            channels g = ch \<and> concat (concat (data g)) = []"
    using Image_ctor_ok [of w h ch] by (auto simp: out_ok_def)
next
  assume "w < 0 \<or> h < 0 \<or> ch < 0"
  then show "Image_ctor w h ch = Inl LengthError" by (auto simp: Image_ctor_def)
next
  assume wf: "wf_image G"
  then have nn: "0 \<le> width G" "0 \<le> height G" "0 \<le> channels G"
    by (simp_all add: wf_image_def)
  show "\<exists>out. flipHorizontal G = Inr out" using flipHorizontal_spec [OF wf] by blast
  show "\<exists>out. flipVertical G = Inr out" using flipVertical_spec [OF wf] by blast
  show "\<forall>delta. \<exists>out. adjustBrightness G delta = Inr out"
    using adjustBrightness_spec [OF wf] by blast
  show "\<exists>out. applyBlur G = Inr out"
    using Image_ctor_ok [OF nn] by (auto simp: applyBlur_def Let_def)
  show "\<exists>out. rotate90 G = Inr out"
    using Image_ctor_ok [OF nn(2,1,3)] by (auto simp: rotate90_def Let_def)
  assume "in_range G \<and> 3 \<le> channels G"
  then show "\<exists>out. convertToGrayscale G = Inr out"
    using convertToGrayscale_spec [OF wf] by blast
qed

text \<open>
C9, amended, on \<open>Image(0, 2, 3)\<close>, \<open>Image(-1, 2, 3)\<close> and the test image.
\<close>

theorem degenerate_grids_and_total_transforms_witness:
  "(\<exists>g. Image_ctor 0 2 3 = Inr g \<and> wf_image g \<and> width g = 0 \<and> height g = 2 \<and>
        channels g = 3 \<and> concat (concat (data g)) = []) \<and>
   Image_ctor (- 1) 2 3 = Inl LengthError \<and>
   wf_image createTestImage \<and> in_range createTestImage \<and>
   (\<exists>out. flipHorizontal createTestImage = Inr out) \<and>
   (\<exists>out. flipVertical createTestImage = Inr out) \<and>
   (\<exists>out. adjustBrightness createTestImage 50 = Inr out) \<and>
   (\<exists>out. applyBlur createTestImage = Inr out) \<and>
   (\<exists>out. rotate90 createTestImage = Inr out) \<and>
   (\<exists>out. convertToGrayscale createTestImage = Inr out)"
proof -
  have ch: "3 \<le> channels createTestImage" by (simp add: createTestImage_def)
  note t0 = degenerate_grids_and_total_transforms [of 0 2 3 createTestImage]
  note t1 = degenerate_grids_and_total_transforms [of "- 1" 2 3 createTestImage]
  have "\<exists>g. Image_ctor 0 2 3 = Inr g \<and> wf_image g \<and> width g = 0 \<and> height g = 2 \<and>
        channels g = 3 \<and> concat (concat (data g)) = []"
    using t0 by simp
  moreover have "Image_ctor (- 1) 2 3 = Inl LengthError" using t1 by simp
  ultimately show ?thesis
    using t0 ch wf_createTestImage in_range_createTestImage by blast
qed

end
